theory Spec2Isabelle
  imports Complex_Main "HOL-Library.Multiset" "HOL-Library.Log_Nat"
begin

section \<open>Python values\<close>

text \<open>
  A Python \<open>str\<close> is a sequence of Unicode code points; a code point is a natural
  number here, so that the whitespace that \<open>str.strip\<close> removes is all of Python's
  whitespace and not only its ASCII part. \<open>ustr\<close> turns a literal into code points.
\<close>

type_synonym ustr = "nat list"

definition ustr :: "string \<Rightarrow> ustr" where
  "ustr s = map of_char s"

text \<open>\<open>str.isspace\<close> on one code point (CPython's \<open>_PyUnicode_IsWhitespace\<close>).\<close>

definition isspace :: "nat \<Rightarrow> bool" where
  "isspace c \<longleftrightarrow>
     (9 \<le> c \<and> c \<le> 13) \<or> (28 \<le> c \<and> c \<le> 32) \<or> c = 133 \<or> c = 160 \<or> c = 5760 \<or>
     (8192 \<le> c \<and> c \<le> 8202) \<or> c = 8232 \<or> c = 8233 \<or> c = 8239 \<or> c = 8287 \<or> c = 12288"

text \<open>\<open>col.strip()\<close>: whitespace is removed at both ends.\<close>

definition lstrip :: "ustr \<Rightarrow> ustr" where
  "lstrip s = dropWhile isspace s"

definition rstrip :: "ustr \<Rightarrow> ustr" where
  "rstrip s = rev (dropWhile isspace (rev s))"

definition strip :: "ustr \<Rightarrow> ustr" where
  "strip s = rstrip (lstrip s)"

text \<open>\<open>s.replace(old, new)\<close> where \<open>old\<close> and \<open>new\<close> are one code point each.\<close>

definition str_replace :: "nat \<Rightarrow> nat \<Rightarrow> ustr \<Rightarrow> ustr" where
  "str_replace old new s = map (\<lambda>c. if c = old then new else c) s"

text \<open>
  An exception is the name of its class and a tag for the place that raises it.
  A call that raises returns \<open>Inl\<close>, one that returns a value returns \<open>Inr\<close>.
\<close>

datatype exn = Exn string string

fun exn_class :: "exn \<Rightarrow> string" where
  "exn_class (Exn c m) = c"

text \<open>Sequencing: the first call that raises ends the computation.\<close>

definition and_then :: "exn + 'a \<Rightarrow> ('a \<Rightarrow> exn + 'b) \<Rightarrow> exn + 'b" where
  "and_then m f = (case m of Inl e \<Rightarrow> Inl e | Inr v \<Rightarrow> f v)"

section \<open>The table\<close>

text \<open>
  A cell of a pandas table as \<open>pd.read_csv\<close> produces it: a missing value (\<open>NaN\<close>),
  an integer, a float (a finite one is the real number it denotes, the two infinities
  apart), a boolean or a text.
\<close>

datatype cell = NaN | IntV int | FloatV real | PosInf | NegInf | BoolV bool | StrV ustr

text \<open>
  A \<open>DataFrame\<close>: the column labels and the rows, each row with its index label. An index
  label is a tuple of cells: the one cell \<open>IntV k\<close> for the \<open>k\<close>-th row of the default index
  \<open>0, 1, ...\<close>, and the leading cells of the record when the file gives the index.
  A \<open>Series\<close> is the frame with one column.
\<close>

record dataframe =
  columns :: "ustr list"
  rows :: "(cell list \<times> cell list) list"

text \<open>
  \<open>pd.read_csv(file_path)\<close> with its default arguments. The file arrives tokenised and
  typed: the header and the records. The width of the table is the number of fields of
  the header or of the first record, whichever is larger. A later record with more
  fields raises; a record with fewer is padded with \<open>NaN\<close>. When the records are wider than
  the header, the leading fields without a name are the index of the table (the
  implicit index column); otherwise the index is \<open>0, 1, ...\<close>.
\<close>

type_synonym csv = "ustr list \<times> cell list list"

definition read_csv :: "csv \<Rightarrow> exn + dataframe" where
  "read_csv file =
     (case file of (header, records) \<Rightarrow>
        let width = (case records of [] \<Rightarrow> length header | r # _ \<Rightarrow> max (length header) (length r));
            leading_cols = width - length header
        in if list_ex (\<lambda>r. width < length r) records
           then Inl (Exn ''ParserError'' ''Expected fewer fields'')
           else
             let padded = map (\<lambda>r. r @ replicate (width - length r) NaN) records
             in Inr \<lparr>columns = header,
                     rows = (if leading_cols = 0
                             then zip (map (\<lambda>k. [IntV (int k)]) [0..<length padded]) padded
                             else map (\<lambda>r. (take leading_cols r, drop leading_cols r)) padded)\<rparr>)"

text \<open>
  \<open>df[key]\<close> for a label \<open>key\<close>: the columns carrying that label, in row order and with
  the index kept; \<open>KeyError\<close> when no column carries it. (One such column gives a
  Series, several give a DataFrame.)
\<close>

definition cells_named :: "ustr \<Rightarrow> ustr list \<Rightarrow> cell list \<Rightarrow> cell list" where
  "cells_named key cols r = map snd (filter (\<lambda>(c, v). c = key) (zip cols r))"

definition getitem :: "dataframe \<Rightarrow> ustr \<Rightarrow> exn + dataframe" where
  "getitem df key =
     (if key \<in> set (columns df)
      then Inr \<lparr>columns = filter (\<lambda>c. c = key) (columns df),
                rows = map (\<lambda>(k, r). (k, cells_named key (columns df) r)) (rows df)\<rparr>
      else Inl (Exn ''KeyError'' ''column label''))"

text \<open>
  \<open>cell >= n\<close> and \<open>cell <= n\<close> as pandas compares a column with an integer: a missing
  value compares false both ways, a boolean counts as 0 or 1, and a text raises
  \<open>TypeError\<close>.
\<close>

fun cell_ge :: "cell \<Rightarrow> int \<Rightarrow> exn + bool" where
  "cell_ge NaN n = Inr False"
| "cell_ge (IntV i) n = Inr (i \<ge> n)"
| "cell_ge (FloatV x) n = Inr (x \<ge> of_int n)"
| "cell_ge PosInf n = Inr True"
| "cell_ge NegInf n = Inr False"
| "cell_ge (BoolV b) n = Inr ((if b then 1 else 0) \<ge> n)"
| "cell_ge (StrV s) n = Inl (Exn ''TypeError'' ''>= between str and int'')"

fun cell_le :: "cell \<Rightarrow> int \<Rightarrow> exn + bool" where
  "cell_le NaN n = Inr False"
| "cell_le (IntV i) n = Inr (i \<le> n)"
| "cell_le (FloatV x) n = Inr (x \<le> of_int n)"
| "cell_le PosInf n = Inr False"
| "cell_le NegInf n = Inr True"
| "cell_le (BoolV b) n = Inr ((if b then 1 else 0) \<le> n)"
| "cell_le (StrV s) n = Inl (Exn ''TypeError'' ''<= between str and int'')"

text \<open>Element-wise operations stop at the first element that raises.\<close>

fun sequence :: "(exn + 'a) list \<Rightarrow> exn + 'a list" where
  "sequence [] = Inr []"
| "sequence (x # xs) =
     (case x of
        Inl e \<Rightarrow> Inl e
      | Inr v \<Rightarrow> (case sequence xs of Inl e \<Rightarrow> Inl e | Inr vs \<Rightarrow> Inr (v # vs)))"

definition frame_cmp :: "(cell \<Rightarrow> int \<Rightarrow> exn + bool) \<Rightarrow> dataframe \<Rightarrow> int \<Rightarrow> exn + bool list list" where
  "frame_cmp cmp df n = sequence (map (\<lambda>(k, r). sequence (map (\<lambda>c. cmp c n) r)) (rows df))"

text \<open>
  \<open>np.select(condlist, choicelist, default)\<close> on one-dimensional conditions and scalar
  choices: each position takes the choice of the first condition that is true there,
  and \<open>default\<close> where none is. numpy's signature gives \<open>default=0\<close>.
\<close>

fun select_first :: "(bool \<times> 'a) list \<Rightarrow> 'a \<Rightarrow> 'a" where
  "select_first [] d = d"
| "select_first ((c, v) # cvs) d = (if c then v else select_first cvs d)"

definition np_select :: "bool list list \<Rightarrow> 'a list \<Rightarrow> 'a \<Rightarrow> exn + 'a list" where
  "np_select condlist choicelist dflt =
     (if length condlist \<noteq> length choicelist
      then Inl (Exn ''ValueError'' ''list of cases must be same length as list of conditions'')
      else case condlist of
        [] \<Rightarrow> Inl (Exn ''ValueError'' ''empty condition list'')
      | c0 # _ \<Rightarrow>
          if list_all (\<lambda>c. length c = length c0) condlist
          then Inr (map (\<lambda>i. select_first (zip (map (\<lambda>c. c ! i) condlist) choicelist) dflt)
                      [0..<length c0])
          else Inl (Exn ''ValueError'' ''shape mismatch''))"

text \<open>\<open>pd.Series(values)\<close> of a one-dimensional array: the index is \<open>0, 1, ...\<close>.\<close>

definition pd_Series :: "'a list \<Rightarrow> (nat \<times> 'a) list" where
  "pd_Series vals = zip [0..<length vals] vals"

text \<open>
  The position in the index \<open>0, 1, ...\<close> that an index label of a table denotes, if any: an
  integer, or a float equal to one. A text, a boolean, a missing value and a tuple of
  several cells denote none.
\<close>

fun range_position :: "cell list \<Rightarrow> nat option" where
  "range_position [IntV i] = (if 0 \<le> i then Some (nat i) else None)"
| "range_position [FloatV x] =
     (if 0 \<le> x \<and> x = of_int \<lfloor>x\<rfloor> then Some (nat \<lfloor>x\<rfloor>) else None)"
| "range_position l = None"

text \<open>
  \<open>series.reindex(index)\<close> for a series of integers with the index \<open>0, 1, ...\<close>: each
  label takes the value the series has for it and \<open>NaN\<close> when the series has none. One
  \<open>NaN\<close> turns the whole column into floats.
\<close>

definition reindex :: "(nat \<times> int) list \<Rightarrow> cell list list \<Rightarrow> cell list" where
  "reindex s labels =
     (let found = map (\<lambda>l. case range_position l of None \<Rightarrow> None | Some i \<Rightarrow> map_of s i) labels
      in if None \<in> set found
         then map (\<lambda>v. case v of None \<Rightarrow> NaN | Some x \<Rightarrow> FloatV (of_int x)) found
         else map (\<lambda>v. case v of None \<Rightarrow> NaN | Some x \<Rightarrow> IntV x) found)"

text \<open>
  \<open>df[key] = series\<close>: the series is aligned on the index of the table, not taken by
  position. An existing column is overwritten; a new label appends a column.
\<close>

definition setitem :: "dataframe \<Rightarrow> ustr \<Rightarrow> (nat \<times> int) list \<Rightarrow> dataframe" where
  "setitem df key s =
     (let aligned = reindex s (map fst (rows df))
      in if key \<in> set (columns df)
         then df\<lparr>rows := map (\<lambda>((l, r), a).
                  (l, map (\<lambda>(c, v). if c = key then a else v) (zip (columns df) r)))
                (zip (rows df) aligned)\<rparr>
         else df\<lparr>columns := columns df @ [key],
                 rows := map (\<lambda>((l, r), a). (l, r @ [a])) (zip (rows df) aligned)\<rparr>)"

text \<open>\<open>df.replace(old, new, inplace=True)\<close> and \<open>df.dropna(inplace=True)\<close>.\<close>

definition df_replace :: "cell \<Rightarrow> cell \<Rightarrow> dataframe \<Rightarrow> dataframe" where
  "df_replace old new df =
     df\<lparr>rows := map (\<lambda>(k, r). (k, map (\<lambda>v. if v = old then new else v) r)) (rows df)\<rparr>"

definition dropna :: "dataframe \<Rightarrow> dataframe" where
  "dropna df = df\<lparr>rows := filter (\<lambda>(k, r). NaN \<notin> set r) (rows df)\<rparr>"

section \<open>load_data\<close>

text \<open>
  The functions of the script are Prefect tasks; a task called in the flow runs its
  function and returns the function's result, and the model is of the functions.
\<close>

definition Ratings :: ustr where
  "Ratings = ustr ''Ratings''"

definition Review_text :: ustr where
  "Review_text = ustr ''Review_text''"

text \<open>\<open>col.strip().replace(' ', '_')\<close>\<close>

definition normalise_column :: "ustr \<Rightarrow> ustr" where
  "normalise_column col = str_replace 32 95 (strip col)"

text \<open>
  \<open>load_data\<close>. The two comparisons are on \<open>df['Ratings']\<close>; when two columns carry the
  label, \<open>np.select\<close> returns a two-dimensional array and \<open>pd.Series\<close> raises. The labels
  are wrapped in a \<open>pd.Series\<close> before they are assigned, so the assignment aligns them on
  the index of the table.
\<close>

definition load_data :: "csv \<Rightarrow> exn + dataframe" where
  "load_data file =
     and_then (read_csv file) (\<lambda>df0.
       let df = df0\<lparr>columns := map normalise_column (columns df0)\<rparr> in
       and_then (getitem df Ratings) (\<lambda>ratings.
       and_then (frame_cmp cell_ge ratings 4) (\<lambda>ge4.
       and_then (frame_cmp cell_le ratings 3) (\<lambda>le3.
         if length (columns ratings) \<noteq> 1
         then Inl (Exn ''ValueError'' ''Data must be 1-dimensional'')
         else and_then (np_select [map hd ge4, map hd le3] [1, 0] (0::int)) (\<lambda>labels.
           Inr (dropna (df_replace (StrV []) NaN
                  (setitem df Ratings (pd_Series labels)))))))))"

text \<open>The position of the first column labelled \<open>key\<close>.\<close>

definition column_position :: "ustr \<Rightarrow> ustr list \<Rightarrow> nat" where
  "column_position key cols = length (takeWhile (\<lambda>c. c \<noteq> key) cols)"

section \<open>input_output\<close>

definition input_output :: "dataframe \<Rightarrow> ustr \<Rightarrow> ustr \<Rightarrow> exn + dataframe \<times> dataframe" where
  "input_output data input output =
     and_then (getitem data input) (\<lambda>X.
     and_then (getitem data output) (\<lambda>y.
       Inr (X, y)))"

section \<open>split_train_test\<close>

text \<open>
  numpy's random generator is a parameter of the model: \<open>RandomState rng seed\<close> is the
  state of a fresh generator seeded with \<open>seed\<close>, and \<open>permutation rng st n\<close> is the shuffled
  \<open>range(n)\<close> that a generator in state \<open>st\<close> draws, with the state after the draw. The
  process also has numpy's global generator, whose state is passed in and out.
\<close>

record 's random_source =
  RandomState :: "int \<Rightarrow> 's"
  permutation :: "'s \<Rightarrow> nat \<Rightarrow> nat list \<times> 's"

text \<open>The argument \<open>random_state\<close>: \<open>None\<close> or an integer seed.\<close>

datatype random_state = RsNone | RsInt int

text \<open>
  The argument \<open>test_size\<close>: a float (a fraction of the samples; a finite float is the real
  number it denotes), an integer (a number of samples) or \<open>None\<close>.
\<close>

datatype test_size = TsFloat real | TsInt int | TsNone

text \<open>
  \<open>check_random_state\<close>: \<open>None\<close> is the global generator, an integer seeds a fresh one and
  must lie in \<open>[0, 2**32 - 1]\<close>.
\<close>

definition check_random_state :: "'s random_source \<Rightarrow> 's \<Rightarrow> random_state \<Rightarrow> exn + 's" where
  "check_random_state rng g random_state =
     (case random_state of
        RsNone \<Rightarrow> Inr g
      | RsInt seed \<Rightarrow>
          if 0 \<le> seed \<and> seed < 2 ^ 32 then Inr (RandomState rng seed)
          else Inl (Exn ''ValueError'' ''Seed must be between 0 and 2**32 - 1''))"

text \<open>
  Floating-point arithmetic: \<open>log2_floor x\<close> is the exponent of a positive number, the
  largest \<open>e\<close> with \<open>2 ^ e \<le> x\<close>, and \<open>round_double x\<close> is the double nearest to \<open>x\<close>, ties to
  even, with 53 significant bits (exponents are not bounded: no product here leaves
  the range of the doubles). A floating-point operation returns the rounded exact result.
\<close>

definition log2_floor :: "real \<Rightarrow> int" where
  "log2_floor x =
     (if 1 \<le> x then int (floorlog 2 (nat \<lfloor>x\<rfloor>)) - 1
      else - int (floorlog 2 (nat (\<lceil>1 / x\<rceil> - 1))))"

definition round_double :: "real \<Rightarrow> real" where
  "round_double x =
     (if x = 0 then 0
      else
        let e = log2_floor \<bar>x\<bar>;
            q = (if 52 \<le> e then 2 ^ nat (e - 52) else 1 / 2 ^ nat (52 - e));
            m = x / q;
            d = m - of_int \<lfloor>m\<rfloor>;
            r = (if d < 1 / 2 then \<lfloor>m\<rfloor>
                 else if 1 / 2 < d then \<lfloor>m\<rfloor> + 1
                 else if even \<lfloor>m\<rfloor> then \<lfloor>m\<rfloor> else \<lfloor>m\<rfloor> + 1)
        in q * of_int r)"

text \<open>
  scikit-learn's \<open>_validate_shuffle_split\<close> as \<open>train_test_split\<close> calls it, with
  \<open>train_size=None\<close> and the default test size 0.25: the numbers of training and test
  samples. The product \<open>test_size * n_samples\<close> is a floating-point product.
\<close>

definition validate_shuffle_split :: "nat \<Rightarrow> test_size \<Rightarrow> exn + int \<times> int" where
  "validate_shuffle_split n_samples test_size =
     (let ts = (case test_size of TsNone \<Rightarrow> TsFloat 0.25 | TsFloat f \<Rightarrow> TsFloat f | TsInt i \<Rightarrow> TsInt i)
      in if (case ts of
               TsInt i \<Rightarrow> i \<ge> int n_samples \<or> i \<le> 0
             | TsFloat f \<Rightarrow> f \<le> 0 \<or> f \<ge> 1
             | TsNone \<Rightarrow> False)
         then Inl (Exn ''ValueError'' ''test_size out of range'')
         else
           let n_test = (case ts of
                           TsInt i \<Rightarrow> i
                         | TsFloat f \<Rightarrow> \<lceil>round_double (f * round_double (real n_samples))\<rceil>
                         | TsNone \<Rightarrow> 0);
               n_train = int n_samples - n_test
           in if n_train + n_test > int n_samples
              then Inl (Exn ''ValueError'' ''sum of train and test sizes exceeds the samples'')
              else if n_train = 0
              then Inl (Exn ''ValueError'' ''the resulting train set will be empty'')
              else Inr (n_train, n_test))"

text \<open>
  \<open>ShuffleSplit\<close> is built with these two numbers as its \<open>train_size\<close> and \<open>test_size\<close> and
  validates them again, as integers, when it splits.
\<close>

definition validate_sizes :: "nat \<Rightarrow> int \<Rightarrow> int \<Rightarrow> exn + nat \<times> nat" where
  "validate_sizes n_samples train_size test_size =
     (if test_size \<ge> int n_samples \<or> test_size \<le> 0
      then Inl (Exn ''ValueError'' ''ShuffleSplit test_size out of range'')
      else if train_size \<ge> int n_samples \<or> train_size \<le> 0
      then Inl (Exn ''ValueError'' ''ShuffleSplit train_size out of range'')
      else if train_size + test_size > int n_samples
      then Inl (Exn ''ValueError'' ''sum of train and test sizes exceeds the samples'')
      else if train_size = 0
      then Inl (Exn ''ValueError'' ''the resulting train set will be empty'')
      else Inr (nat train_size, nat test_size))"

text \<open>\<open>_safe_indexing(a, indices)\<close>: the elements at the given positions.\<close>

definition safe_indexing :: "'a list \<Rightarrow> nat list \<Rightarrow> exn + 'a list" where
  "safe_indexing a indices =
     (if list_all (\<lambda>i. i < length a) indices then Inr (map ((!) a) indices)
      else Inl (Exn ''IndexError'' ''index out of bounds''))"

text \<open>
  scikit-learn's \<open>train_test_split(X, y, test_size=..., random_state=...)\<close>, with
  \<open>shuffle=True\<close> and no stratification: the lengths are checked, the sizes computed and
  validated, one permutation drawn, whose first \<open>n_test\<close> indices are the test set and the
  next \<open>n_train\<close> the training set. The result is \<open>X_train, X_test, y_train, y_test\<close>, with the state of
  the global generator afterwards.
\<close>

definition train_test_split ::
  "'s random_source \<Rightarrow> 's \<Rightarrow> 'a list \<Rightarrow> 'b list \<Rightarrow> test_size \<Rightarrow> random_state \<Rightarrow>
     (exn + 'a list \<times> 'a list \<times> 'b list \<times> 'b list) \<times> 's" where
  "train_test_split rng g X y test_size random_state =
     (if length X \<noteq> length y
      then (Inl (Exn ''ValueError'' ''inconsistent numbers of samples''), g)
      else
        (case and_then (validate_shuffle_split (length X) test_size)
                (\<lambda>(train_size, test_size). validate_sizes (length X) train_size test_size) of
           Inl e \<Rightarrow> (Inl e, g)
         | Inr (n_train, n_test) \<Rightarrow>
             (case check_random_state rng g random_state of
                Inl e \<Rightarrow> (Inl e, g)
              | Inr st \<Rightarrow>
                  (let (perm, st') = permutation rng st (length X);
                       ind_test = take n_test perm;
                       ind_train = take n_train (drop n_test perm)
                   in (and_then (safe_indexing X ind_train) (\<lambda>X_train.
                       and_then (safe_indexing X ind_test) (\<lambda>X_test.
                       and_then (safe_indexing y ind_train) (\<lambda>y_train.
                       and_then (safe_indexing y ind_test) (\<lambda>y_test.
                         Inr (X_train, X_test, y_train, y_test))))),
                       (case random_state of RsNone \<Rightarrow> st' | RsInt seed \<Rightarrow> g))))))"

definition split_train_test ::
  "'s random_source \<Rightarrow> 's \<Rightarrow> 'a list \<Rightarrow> 'b list \<Rightarrow> test_size \<Rightarrow> random_state \<Rightarrow>
     (exn + 'a list \<times> 'a list \<times> 'b list \<times> 'b list) \<times> 's" where
  "split_train_test rng g X y test_size random_state =
     train_test_split rng g X y test_size random_state"

section \<open>train_model\<close>

text \<open>
  The arguments of \<open>GridSearchCV\<close>. The estimator is the pipeline, given by the names of
  its steps; the grid maps a parameter name to its candidate values.
\<close>

record 'v grid_search_cv =
  estimator :: "string list"
  param_grid :: "(string \<times> 'v list) list"
  scoring :: string
  cv :: nat
  refit :: bool
  return_train_score :: bool
  verbose :: nat

text \<open>
  \<open>GridSearchCV.fit(X, y)\<close>: scikit-learn checks that \<open>X\<close> and \<open>y\<close> have the same number of
  samples, and the \<open>cv\<close>-fold splitter raises when there are fewer samples than folds.
  The search proper (fitting and scoring the candidates, refitting the best) is the
  parameter \<open>search\<close>.
\<close>

definition GridSearchCV_fit ::
  "('v grid_search_cv \<Rightarrow> 'x list \<Rightarrow> 'l list \<Rightarrow> exn + 'm) \<Rightarrow>
     'v grid_search_cv \<Rightarrow> 'x list \<Rightarrow> 'l list \<Rightarrow> exn + 'm" where
  "GridSearchCV_fit search clf X y =
     (if length X \<noteq> length y
      then Inl (Exn ''ValueError'' ''inconsistent numbers of samples'')
      else if cv clf > length X
      then Inl (Exn ''ValueError'' ''n_splits greater than the number of samples'')
      else search clf X y)"

definition train_model ::
  "('v grid_search_cv \<Rightarrow> 'x list \<Rightarrow> 'l list \<Rightarrow> exn + 'm) \<Rightarrow>
     'x list \<Rightarrow> 'l list \<Rightarrow> (string \<times> 'v list) list \<Rightarrow> exn + 'm" where
  "train_model search X_train y_train hyperparameters =
     (let pipe = [''vectorization'', ''classifier''];
          clf = \<lparr>estimator = pipe, param_grid = hyperparameters, scoring = ''f1'', cv = 4,
                  refit = True, return_train_score = True, verbose = 1\<rparr>
      in GridSearchCV_fit search clf X_train y_train)"

section \<open>Example tables\<close>

text \<open>
  Five reviews with the ratings 5, 2, 3, 4 and 5, the last with an empty review text, under
  a header that needs normalising; two reviews whose rating is neither \<open>>= 4\<close> nor
  \<open><= 3\<close>: 3.5 and a missing rating; and a review whose rating is a text.
\<close>

definition example_csv :: csv where
  "example_csv =
     ([ustr '' Review text '', ustr ''Ratings''],
      [[StrV (ustr ''great''), IntV 5],
       [StrV (ustr ''broke''), IntV 2],
       [StrV (ustr ''average''), IntV 3],
       [StrV (ustr ''good''), IntV 4],
       [StrV [], IntV 5]])"

definition example_df :: dataframe where
  "example_df =
     \<lparr>columns = [Review_text, Ratings],
      rows = [([IntV 0], [StrV (ustr ''great''), IntV 1]),
              ([IntV 1], [StrV (ustr ''broke''), IntV 0]),
              ([IntV 2], [StrV (ustr ''average''), IntV 0]),
              ([IntV 3], [StrV (ustr ''good''), IntV 1])]\<rparr>"

definition between_csv :: csv where
  "between_csv =
     ([ustr ''Review_text'', ustr ''Ratings''],
      [[StrV (ustr ''so-so''), FloatV 3.5],
       [StrV (ustr ''unrated''), NaN]])"

definition between_df :: dataframe where
  "between_df =
     \<lparr>columns = [Review_text, Ratings],
      rows = [([IntV 0], [StrV (ustr ''so-so''), IntV 0]),
              ([IntV 1], [StrV (ustr ''unrated''), IntV 0])]\<rparr>"

definition text_csv :: csv where
  "text_csv =
     ([ustr ''Review_text'', ustr ''Ratings''],
      [[StrV (ustr ''fine''), StrV (ustr ''five'')]])"

text \<open>
  Two reviews in a file whose records have one field more than the header: a 5-star
  review with the leading field 1 and a 1-star review with the leading field 0. And a
  review whose record ends in a delimiter, so that it has an empty third field.
\<close>

definition implicit_csv :: csv where
  "implicit_csv =
     ([ustr ''Review_text'', ustr ''Ratings''],
      [[IntV 1, StrV (ustr ''good''), IntV 5],
       [IntV 0, StrV (ustr ''bad''), IntV 1]])"

definition implicit_df :: dataframe where
  "implicit_df =
     \<lparr>columns = [Review_text, Ratings],
      rows = [([IntV 1], [StrV (ustr ''good''), IntV 0]),
              ([IntV 0], [StrV (ustr ''bad''), IntV 1])]\<rparr>"

definition trailing_csv :: csv where
  "trailing_csv =
     ([ustr ''Review_text'', ustr ''Ratings''],
      [[StrV (ustr ''so-so''), FloatV 3.5, NaN]])"

text \<open>
  A generator for the examples: its state is a number, a seed is its own state, and a
  draw rotates \<open>range(n)\<close> by the state and advances the state by one.
\<close>

definition example_rng :: "nat random_source" where
  "example_rng =
     \<lparr>RandomState = (\<lambda>seed. nat seed),
      permutation = (\<lambda>st n. (rotate st [0..<n], Suc st))\<rparr>"

text \<open>A search that fits nothing and returns the number of parameters in the grid.\<close>

definition example_search :: "nat grid_search_cv \<Rightarrow> string list \<Rightarrow> int list \<Rightarrow> exn + nat" where
  "example_search clf X y = Inr (length (param_grid clf))"

section \<open>Auxiliary facts\<close>

lemma sequence_Inr: "sequence xs = Inr vs \<Longrightarrow> xs = map Inr vs"
  by (induction xs arbitrary: vs) (auto split: sum.splits)

lemma sequence_map_Inr:
  assumes "sequence (map f xs) = Inr vs"
  shows "length vs = length xs" and "i < length xs \<Longrightarrow> f (xs ! i) = Inr (vs ! i)"
proof -
  have eq: "map f xs = map Inr vs" using assms by (rule sequence_Inr)
  then show len: "length vs = length xs" by (metis length_map)
  show "f (xs ! i) = Inr (vs ! i)" if "i < length xs"
    using that eq len by (metis nth_map)
qed

lemma filter_zip_absent:
  "key \<notin> set cols \<Longrightarrow> filter (\<lambda>(c, v). c = key) (zip cols r) = []"
  by (induction cols arbitrary: r) (auto simp: zip_Cons1 split: list.splits)

lemma column_position_unique:
  "length (filter (\<lambda>c. c = key) cols) = 1 \<Longrightarrow>
     column_position key cols < length cols \<and> cols ! column_position key cols = key"
  unfolding column_position_def
  by (induction cols) (auto split: if_splits)

lemma cells_named_unique:
  "length (filter (\<lambda>c. c = key) cols) = 1 \<Longrightarrow> length r = length cols \<Longrightarrow>
     cells_named key cols r = [r ! column_position key cols]"
proof (induction cols arbitrary: r)
  case Nil
  then show ?case by simp
next
  case (Cons c cs)
  then obtain x xs where r: "r = x # xs" and len: "length xs = length cs"
    by (cases r) auto
  show ?case
  proof (cases "c = key")
    case True
    with Cons.prems have "key \<notin> set cs" by (auto simp add: filter_empty_conv)
    with True r show ?thesis
      by (simp add: cells_named_def column_position_def filter_zip_absent)
  next
    case False
    with Cons.prems have "length (filter (\<lambda>c. c = key) cs) = 1" by simp
    from Cons.IH [OF this len] False r show ?thesis
      by (simp add: cells_named_def column_position_def)
  qed
qed

lemma overwrite_unique:
  "length (filter (\<lambda>c. c = key) cols) = 1 \<Longrightarrow> length r = length cols \<Longrightarrow>
     map (\<lambda>(c, v). if c = key then a else v) (zip cols r) = r[column_position key cols := a]"
proof (induction cols arbitrary: r)
  case Nil
  then show ?case by simp
next
  case (Cons c cs)
  then obtain x xs where r: "r = x # xs" and len: "length xs = length cs"
    by (cases r) auto
  show ?case
  proof (cases "c = key")
    case True
    with Cons.prems have "key \<notin> set cs" by (auto simp add: filter_empty_conv)
    then have "map (\<lambda>(c, v). if c = key then a else v) (zip cs xs) = xs"
      using len by (induction cs xs rule: list_induct2') auto
    with True r show ?thesis
      by (simp add: column_position_def)
  next
    case False
    with Cons.prems have "length (filter (\<lambda>c. c = key) cs) = 1" by simp
    from Cons.IH [OF this len] False r show ?thesis
      by (simp add: column_position_def)
  qed
qed

lemma and_then_Inr_iff: "and_then m f = Inr v \<longleftrightarrow> (\<exists>x. m = Inr x \<and> f x = Inr v)"
  by (cases m) (simp_all add: and_then_def)

lemma rstrip_shape: "l = rev (dropWhile P (rev l)) @ rev (takeWhile P (rev l))"
proof -
  have "rev (takeWhile P (rev l) @ dropWhile P (rev l)) = l"
    by (simp only: takeWhile_dropWhile_id rev_rev_ident)
  then show ?thesis by (simp only: rev_append)
qed

lemma strip_shape:
  "\<exists>pre suf. s = pre @ strip s @ suf \<and> list_all isspace pre \<and> list_all isspace suf"
proof -
  let ?l = "dropWhile isspace s"
  have 1: "s = takeWhile isspace s @ ?l" by simp
  have 2: "?l = strip s @ rev (takeWhile isspace (rev ?l))"
    unfolding strip_def lstrip_def rstrip_def by (rule rstrip_shape)
  have a: "list_all isspace (takeWhile isspace s)"
    by (simp add: list_all_iff) (meson set_takeWhileD)
  have b: "list_all isspace (rev (takeWhile isspace (rev ?l)))"
    by (simp add: list_all_iff) (meson set_takeWhileD)
  from 2 have "takeWhile isspace s @ ?l =
      takeWhile isspace s @ strip s @ rev (takeWhile isspace (rev ?l))"
    by (rule arg_cong)
  with 1 have "s = takeWhile isspace s @ strip s @ rev (takeWhile isspace (rev ?l))"
    by (rule trans)
  with a b show ?thesis by blast
qed

lemma strip_ends:
  "strip s = [] \<or> (\<not> isspace (hd (strip s)) \<and> \<not> isspace (last (strip s)))"
proof (cases "strip s = []")
  case True
  then show ?thesis by simp
next
  case False
  let ?l = "dropWhile isspace s"
  have st: "strip s = rev (dropWhile isspace (rev ?l))"
    by (simp add: strip_def lstrip_def rstrip_def)
  from False st have ne: "dropWhile isspace (rev ?l) \<noteq> []" by simp
  then have "\<not> isspace (hd (dropWhile isspace (rev ?l)))" by (rule hd_dropWhile)
  with ne st have last: "\<not> isspace (last (strip s))" by (simp add: last_rev)
  have "?l = strip s @ rev (takeWhile isspace (rev ?l))"
    unfolding st by (rule rstrip_shape)
  with False have "hd ?l = hd (strip s)" and "?l \<noteq> []"
    by (metis hd_append2, metis append_is_Nil_conv)
  then have "\<not> isspace (hd (strip s))" by (metis hd_dropWhile)
  with last show ?thesis by simp
qed

lemma normalise_column_clean:
  "(normalise_column h = [] \<or>
      (\<not> isspace (hd (normalise_column h)) \<and> \<not> isspace (last (normalise_column h)))) \<and>
   32 \<notin> set (normalise_column h)"
proof -
  have us: "\<not> isspace 95" by (simp add: isspace_def)
  let ?f = "\<lambda>c::nat. if c = 32 then 95 else c"
  have n: "normalise_column h = map ?f (strip h)"
    by (simp add: normalise_column_def str_replace_def)
  have keep: "\<not> isspace c \<Longrightarrow> \<not> isspace (?f c)" for c by (simp add: us)
  have no32: "32 \<notin> set (normalise_column h)" by (auto simp: n)
  show ?thesis
  proof (cases "strip h = []")
    case True
    then show ?thesis by (simp add: n)
  next
    case ne: False
    with strip_ends [of h]
    have e: "\<not> isspace (hd (strip h))" "\<not> isspace (last (strip h))" by simp_all
    from ne have "hd (map ?f (strip h)) = ?f (hd (strip h))" by (rule hd_map)
    moreover from ne have "last (map ?f (strip h)) = ?f (last (strip h))" by (rule last_map)
    ultimately show ?thesis using e keep [of "hd (strip h)"] keep [of "last (strip h)"] no32
      unfolding n by (simp del: set_map)
  qed
qed

lemma cell_le3_not_ge4: "cell_le c 3 = Inr True \<Longrightarrow> cell_ge c 4 \<noteq> Inr True"
  by (cases c) (auto split: if_splits)

lemma cells_named_positions:
  assumes "length r = length cols"
  shows "cells_named key cols r =
           map ((!) r) (filter (\<lambda>p. cols ! p = key) [0..<length cols])"
proof -
  have z: "zip cols r = map (\<lambda>p. (cols ! p, r ! p)) [0..<length cols]"
    using assms by (intro nth_equalityI) simp_all
  show ?thesis
    unfolding cells_named_def z by (simp add: filter_map comp_def)
qed

lemma getitem_present:
  assumes "key \<in> set (columns df)"
  shows "getitem df key =
    Inr \<lparr>columns = filter (\<lambda>c. c = key) (columns df),
          rows = map (\<lambda>(k, r). (k, cells_named key (columns df) r)) (rows df)\<rparr>"
  using assms by (simp add: getitem_def)

lemma getitem_absent:
  assumes "key \<notin> set (columns df)"
  shows "getitem df key = Inl (Exn ''KeyError'' ''column label'')"
  using assms by (simp add: getitem_def)

lemma filter_eq_replicate:
  "filter (\<lambda>c. c = key) cols = replicate (length (filter (\<lambda>c. c = key) cols)) key"
  by (induction cols) simp_all

lemma rows_nth: "xs = map (\<lambda>k. (fst (xs ! k), snd (xs ! k))) [0..<length xs]"
  by (rule nth_equalityI) simp_all

lemma read_csv_frame:
  assumes "read_csv file = Inr df0"
  shows "columns df0 = fst file"
    and "k < length (rows df0) \<Longrightarrow> length (snd (rows df0 ! k)) = length (columns df0)"
proof -
  obtain header records where f: "file = (header, records)" by (cases "file")
  define width where "width = (case records of [] \<Rightarrow> length header
    | r # _ \<Rightarrow> max (length header) (length r))"
  define padded where "padded = map (\<lambda>r. r @ replicate (width - length r) NaN) records"
  from assms f have ok: "\<not> list_ex (\<lambda>r. width < length r) records"
    and df0: "df0 = \<lparr>columns = header,
        rows = (if width - length header = 0
                then zip (map (\<lambda>k. [IntV (int k)]) [0..<length padded]) padded
                else map (\<lambda>r. (take (width - length header) r, drop (width - length header) r)) padded)\<rparr>"
    by (auto simp: read_csv_def Let_def width_def padded_def split: if_splits)
  from df0 f show "columns df0 = fst file" by simp
  have w: "length header \<le> width" by (simp add: width_def split: list.splits)
  have pl: "length r = width" if "r \<in> set padded" for r
  proof -
    from that obtain r0 where "r0 \<in> set records" and r: "r = r0 @ replicate (width - length r0) NaN"
      by (auto simp: padded_def)
    with ok have "length r0 \<le> width" by (auto simp: list_ex_iff not_less)
    with r show ?thesis by simp
  qed
  show "length (snd (rows df0 ! k)) = length (columns df0)" if k: "k < length (rows df0)"
  proof (cases "width - length header = 0")
    case True
    with k df0 have "k < length padded" by simp
    with True df0 have "snd (rows df0 ! k) = padded ! k" by simp
    moreover from \<open>k < length padded\<close> have "padded ! k \<in> set padded" by simp
    ultimately show ?thesis using pl w True df0 by simp
  next
    case False
    with k df0 have kp: "k < length padded" by simp
    with False df0 have "snd (rows df0 ! k) = drop (width - length header) (padded ! k)" by simp
    moreover from kp have "padded ! k \<in> set padded" by simp
    ultimately show ?thesis using pl w df0 by simp
  qed
qed

lemma length_reindex: "length (reindex s ls) = length ls"
  by (simp add: reindex_def Let_def)

lemma map_of_pd_Series:
  "k < length vals \<Longrightarrow> map_of (pd_Series vals) k = Some (vals ! k)"
  unfolding pd_Series_def
  using map_of_zip_nth [of "[0..<length vals]" vals k] by simp

lemma map_of_pd_Series_None:
  "\<not> k < length vals \<Longrightarrow> map_of (pd_Series vals) k = None"
  unfolding pd_Series_def by (simp add: map_of_zip_is_None)

lemma reindex_nth:
  assumes "k < length ls"
  shows "reindex (pd_Series vals) ls ! k = NaN \<or>
         (\<exists>i < length vals. range_position (ls ! k) = Some i \<and>
            (reindex (pd_Series vals) ls ! k = IntV (vals ! i) \<or>
             reindex (pd_Series vals) ls ! k = FloatV (of_int (vals ! i))))"
proof (cases "range_position (ls ! k)")
  case None
  with assms show ?thesis
    by (simp add: reindex_def Let_def)
next
  case (Some i)
  show ?thesis
  proof (cases "i < length vals")
    case True
    with Some assms show ?thesis
      by (simp add: reindex_def Let_def map_of_pd_Series)
  next
    case False
    with Some assms show ?thesis
      by (simp add: reindex_def Let_def map_of_pd_Series_None image_iff)
  qed
qed

lemma reindex_default:
  "reindex (pd_Series vals) (map (\<lambda>k. [IntV (int k)]) [0..<length vals]) = map IntV vals"
proof -
  have "map (\<lambda>l. case range_position l of None \<Rightarrow> None | Some i \<Rightarrow> map_of (pd_Series vals) i)
          (map (\<lambda>k. [IntV (int k)]) [0..<length vals]) = map Some vals"
    by (rule nth_equalityI) (simp_all add: map_of_pd_Series)
  then show ?thesis
    by (simp add: reindex_def Let_def comp_def)
qed

lemma load_data_Inr:
  fixes df0 :: dataframe
  defines "p \<equiv> column_position Ratings (map normalise_column (columns df0))"
  defines "labels \<equiv> map (\<lambda>k. if cell_ge (snd (rows df0 ! k) ! p) 4 = Inr True then 1 else (0::int))
                      [0..<length (rows df0)]"
  defines "aligned \<equiv> reindex (pd_Series labels) (map fst (rows df0))"
  assumes rd: "read_csv csvf = Inr df0" and ld: "load_data csvf = Inr df"
  shows "length (filter (\<lambda>c. c = Ratings) (map normalise_column (columns df0))) = 1"
    and "columns df = map normalise_column (columns df0)"
    and "rows df = filter (\<lambda>(l, r). NaN \<notin> set r)
           (map (\<lambda>k. (fst (rows df0 ! k), map (\<lambda>v. if v = StrV [] then NaN else v)
              ((snd (rows df0 ! k))[p := aligned ! k])))
            [0..<length (rows df0)])"
    and "\<And>k. k < length (rows df0) \<Longrightarrow>
           \<exists>b. cell_ge (snd (rows df0 ! k) ! p) 4 = Inr b"
proof -
  let ?cols = "map normalise_column (columns df0)"
  let ?n = "length (rows df0)"
  let ?L = "\<lambda>k. fst (rows df0 ! k)"
  let ?C = "\<lambda>k. snd (rows df0 ! k)"
  let ?df = "df0\<lparr>columns := ?cols\<rparr>"
  from ld obtain ratings ge4 le3 lbls where
    g: "getitem ?df Ratings = Inr ratings"
    and ge: "frame_cmp cell_ge ratings 4 = Inr ge4"
    and le: "frame_cmp cell_le ratings 3 = Inr le3"
    and one: "length (columns ratings) = 1"
    and sel: "np_select [map hd ge4, map hd le3] [1, 0] (0::int) = Inr lbls"
    and df: "df = dropna (df_replace (StrV []) NaN (setitem ?df Ratings (pd_Series lbls)))"
    by (auto simp: load_data_def rd and_then_Inr_iff Let_def split: if_splits)
  from g have mem: "Ratings \<in> set ?cols"
    and ratings: "ratings = \<lparr>columns = filter (\<lambda>c. c = Ratings) ?cols,
                    rows = map (\<lambda>(l, r). (l, cells_named Ratings ?cols r)) (rows df0)\<rparr>"
    by (auto simp: getitem_def split: if_splits)
  from one ratings show uniq: "length (filter (\<lambda>c. c = Ratings) ?cols) = 1" by simp
  have len: "length (?C k) = length ?cols" if "k < ?n" for k
    using read_csv_frame(2) [OF rd that] by simp
  have rrows: "rows ratings = map (\<lambda>k. (?L k, [?C k ! p])) [0..<?n]"
    unfolding ratings p_def
    by (rule nth_equalityI) (simp_all add: case_prod_unfold cells_named_unique [OF uniq len])
  have ge_i: "cell_ge (?C k ! p) 4 = Inr (hd (ge4 ! k))" if "k < ?n" for k
  proof -
    from ge have s: "sequence (map (\<lambda>k. sequence [cell_ge (?C k ! p) 4]) [0..<?n]) = Inr ge4"
      by (simp add: frame_cmp_def rrows comp_def)
    from sequence_map_Inr(2) [OF s, of k] that
    have "sequence [cell_ge (?C k ! p) 4] = Inr (ge4 ! k)" by simp
    then have "[cell_ge (?C k ! p) 4] = map Inr (ge4 ! k)"
      by (rule sequence_Inr)
    then show "cell_ge (?C k ! p) 4 = Inr (hd (ge4 ! k))"
      by (cases "ge4 ! k") auto
  qed
  then show "\<And>k. k < ?n \<Longrightarrow> \<exists>b. cell_ge (?C k ! p) 4 = Inr b" by blast
  have le_len: "length le3 = ?n"
  proof -
    from le have s: "sequence (map (\<lambda>k. sequence [cell_le (?C k ! p) 3]) [0..<?n]) = Inr le3"
      by (simp add: frame_cmp_def rrows comp_def)
    from sequence_map_Inr(1) [OF s] show ?thesis by simp
  qed
  have ge_len: "length ge4 = ?n"
  proof -
    from ge have s: "sequence (map (\<lambda>k. sequence [cell_ge (?C k ! p) 4]) [0..<?n]) = Inr ge4"
      by (simp add: frame_cmp_def rrows comp_def)
    from sequence_map_Inr(1) [OF s] show ?thesis by simp
  qed
  from sel ge_len le_len
  have "lbls = map (\<lambda>k. if hd (ge4 ! k) then 1 else 0) [0..<?n]"
    by (auto simp: np_select_def)
  also have "\<dots> = labels"
    unfolding labels_def by (rule map_cong [OF refl]) (simp add: ge_i)
  finally have lbls: "lbls = labels" .
  have al_len: "length aligned = ?n" by (simp add: aligned_def length_reindex)
  have set_rows: "rows (setitem ?df Ratings (pd_Series lbls)) =
      map (\<lambda>k. (?L k, (?C k)[p := aligned ! k])) [0..<?n]"
  proof (rule nth_equalityI)
    show "length (rows (setitem ?df Ratings (pd_Series lbls))) =
        length (map (\<lambda>k. (?L k, (?C k)[p := aligned ! k])) [0..<?n])"
      using mem by (simp add: setitem_def Let_def length_reindex)
  next
    fix k assume "k < length (rows (setitem ?df Ratings (pd_Series lbls)))"
    with mem have k: "k < ?n" by (simp add: setitem_def Let_def length_reindex)
    have "rows (setitem ?df Ratings (pd_Series lbls)) ! k =
        (?L k, map (\<lambda>(c, v). if c = Ratings then aligned ! k else v) (zip ?cols (?C k)))"
      using mem k by (simp add: setitem_def Let_def length_reindex lbls aligned_def
          case_prod_unfold)
    also have "\<dots> = (?L k, (?C k)[p := aligned ! k])"
      unfolding p_def by (simp add: overwrite_unique [OF uniq len [OF k]])
    finally show "rows (setitem ?df Ratings (pd_Series lbls)) ! k =
        map (\<lambda>k. (?L k, (?C k)[p := aligned ! k])) [0..<?n] ! k"
      using k by simp
  qed
  have set_cols: "columns (setitem ?df Ratings (pd_Series lbls)) = ?cols"
    using mem by (simp add: setitem_def Let_def)
  show "columns df = ?cols"
    by (simp add: df dropna_def df_replace_def set_cols)
  show "rows df = filter (\<lambda>(l, r). NaN \<notin> set r)
           (map (\<lambda>k. (?L k, map (\<lambda>v. if v = StrV [] then NaN else v) ((?C k)[p := aligned ! k])))
            [0..<?n])"
    by (simp add: df dropna_def df_replace_def set_rows comp_def)
qed

lemma load_data_read:
  assumes "load_data csvf = Inr df"
  obtains df0 where "read_csv csvf = Inr df0"
  using assms by (auto simp: load_data_def and_then_Inr_iff)

lemma load_data_row:
  assumes rd: "read_csv csvf = Inr df0" and ld: "load_data csvf = Inr df"
    and mem: "(l, r) \<in> set (rows df)"
  obtains k a where "k < length (rows df0)" and "l = fst (rows df0 ! k)"
    and "r = map (\<lambda>v. if v = StrV [] then NaN else v)
              ((snd (rows df0 ! k))[column_position Ratings (columns df) := a])"
    and "a = NaN \<or>
         (\<exists>i < length (rows df0). range_position l = Some i \<and>
            (a = IntV (if cell_ge (snd (rows df0 ! i) ! column_position Ratings (columns df)) 4
                          = Inr True then 1 else 0) \<or>
             a = FloatV (of_int (if cell_ge (snd (rows df0 ! i) ! column_position Ratings (columns df)) 4
                          = Inr True then 1 else 0))))"
    and "NaN \<notin> set r"
proof -
  let ?p = "column_position Ratings (columns df)"
  let ?n = "length (rows df0)"
  let ?labels = "map (\<lambda>k. if cell_ge (snd (rows df0 ! k) ! ?p) 4 = Inr True then 1 else (0::int))
      [0..<?n]"
  let ?aligned = "reindex (pd_Series ?labels) (map fst (rows df0))"
  note cols = load_data_Inr(2) [OF rd ld]
  note rws = load_data_Inr(3) [OF rd ld, folded cols]
  from mem obtain k where k: "k < ?n" and l: "l = fst (rows df0 ! k)"
    and r: "r = map (\<lambda>v. if v = StrV [] then NaN else v) ((snd (rows df0 ! k))[?p := ?aligned ! k])"
    and nan: "NaN \<notin> set r"
    unfolding rws by auto
  from k have "k < length (map fst (rows df0))" by simp
  from reindex_nth [OF this, of ?labels] k l
  have al: "?aligned ! k = NaN \<or>
         (\<exists>i < ?n. range_position l = Some i \<and>
            (?aligned ! k = IntV (if cell_ge (snd (rows df0 ! i) ! ?p) 4 = Inr True then 1 else 0) \<or>
             ?aligned ! k = FloatV (of_int (if cell_ge (snd (rows df0 ! i) ! ?p) 4 = Inr True
                 then 1 else 0))))"
    by auto
  from k l r al nan show ?thesis by (rule that)
qed

lemma load_data_position:
  assumes rd: "read_csv csvf = Inr df0" and ld: "load_data csvf = Inr df"
  shows "column_position Ratings (columns df) < length (columns df0)"
    and "columns df ! column_position Ratings (columns df) = Ratings"
    and "length (filter (\<lambda>c. c = Ratings) (columns df)) = 1"
    and "length (columns df) = length (columns df0)"
proof -
  note cols = load_data_Inr(2) [OF rd ld]
  from load_data_Inr(1) [OF rd ld] show u: "length (filter (\<lambda>c. c = Ratings) (columns df)) = 1"
    by (simp only: cols)
  from column_position_unique [OF u]
  show "column_position Ratings (columns df) < length (columns df0)"
    and "columns df ! column_position Ratings (columns df) = Ratings"
    by (simp_all add: cols)
  show "length (columns df) = length (columns df0)" by (simp add: cols)
qed

lemma load_data_row_cells:
  assumes rd: "read_csv csvf = Inr df0" and ld: "load_data csvf = Inr df"
    and mem: "(l, r) \<in> set (rows df)"
  obtains k i where "k < length (rows df0)" and "i < length (rows df0)"
    and "l = fst (rows df0 ! k)" and "range_position l = Some i"
    and "r ! column_position Ratings (columns df) =
           IntV (if cell_ge (snd (rows df0 ! i) ! column_position Ratings (columns df)) 4
                    = Inr True then 1 else 0) \<or>
         r ! column_position Ratings (columns df) =
           FloatV (of_int (if cell_ge (snd (rows df0 ! i) ! column_position Ratings (columns df)) 4
                    = Inr True then 1 else 0))"
    and "length r = length (columns df0)"
    and "\<forall>j < length (columns df0). j \<noteq> column_position Ratings (columns df) \<longrightarrow>
           r ! j = snd (rows df0 ! k) ! j"
proof -
  let ?p = "column_position Ratings (columns df)"
  let ?blank = "\<lambda>v. if v = StrV [] then NaN else v"
  let ?lab = "\<lambda>i. if cell_ge (snd (rows df0 ! i) ! ?p) 4 = Inr True then 1 else (0::int)"
  from load_data_row [OF rd ld mem] obtain k a where k: "k < length (rows df0)"
    and l: "l = fst (rows df0 ! k)"
    and r: "r = map ?blank ((snd (rows df0 ! k))[?p := a])"
    and a: "a = NaN \<or> (\<exists>i < length (rows df0). range_position l = Some i \<and>
            (a = IntV (?lab i) \<or> a = FloatV (of_int (?lab i))))"
    and nan: "NaN \<notin> set r"
    by blast
  note len = read_csv_frame(2) [OF rd k]
  note p = load_data_position(1) [OF rd ld]
  from r len have rl: "length r = length (columns df0)" by simp
  have nth: "r ! j \<noteq> NaN" if "j < length (columns df0)" for j
    using nan rl that by (metis nth_mem)
  from r p len have rp: "r ! ?p = ?blank a" by simp
  with nth [OF p] have an: "a \<noteq> NaN" by auto
  with a obtain i where i: "i < length (rows df0)" and rp': "range_position l = Some i"
    and ai: "a = IntV (?lab i) \<or> a = FloatV (of_int (?lab i))" by blast
  from ai rp have lab: "r ! ?p = IntV (?lab i) \<or> r ! ?p = FloatV (of_int (?lab i))" by auto
  have other: "\<forall>j < length (columns df0). j \<noteq> ?p \<longrightarrow> r ! j = snd (rows df0 ! k) ! j"
  proof (intro allI impI)
    fix j assume j: "j < length (columns df0)" and jp: "j \<noteq> ?p"
    with r len have rj: "r ! j = ?blank (snd (rows df0 ! k) ! j)" by simp
    with nth [OF j] show "r ! j = snd (rows df0 ! k) ! j"
      by (cases "snd (rows df0 ! k) ! j = StrV []") simp_all
  qed
  from k i l rp' lab rl other show ?thesis by (rule that)
qed

subsection \<open>Evaluating the examples\<close>

lemma ustr_Nil_iff: "ustr s = [] \<longleftrightarrow> s = []"
  by (simp add: ustr_def)

lemma normalise_Review_text: "normalise_column (ustr '' Review text '') = Review_text"
  by (simp add: normalise_column_def ustr_def Review_text_def strip_def lstrip_def rstrip_def
      str_replace_def isspace_def)

lemma normalise_Review_text': "normalise_column (ustr ''Review_text'') = Review_text"
  by (simp add: normalise_column_def ustr_def Review_text_def strip_def lstrip_def rstrip_def
      str_replace_def isspace_def)

lemma normalise_Ratings: "normalise_column (ustr ''Ratings'') = Ratings"
  by (simp add: normalise_column_def ustr_def Ratings_def strip_def lstrip_def rstrip_def
      str_replace_def isspace_def)

lemma Review_text_neq_Ratings: "Review_text \<noteq> Ratings"
  by (simp add: Review_text_def Ratings_def ustr_def)

lemma upt_5: "[0..<5] = [0, 1, 2, 3, 4]"
  by (simp add: upt_conv_Cons)

lemma upt_2: "[0..<2] = [0, 1]"
  by (simp add: upt_conv_Cons)

lemma read_csv_example:
  "read_csv example_csv = Inr \<lparr>columns = [ustr '' Review text '', ustr ''Ratings''],
     rows = [([IntV 0], [StrV (ustr ''great''), IntV 5]),
             ([IntV 1], [StrV (ustr ''broke''), IntV 2]),
             ([IntV 2], [StrV (ustr ''average''), IntV 3]),
             ([IntV 3], [StrV (ustr ''good''), IntV 4]),
             ([IntV 4], [StrV [], IntV 5])]\<rparr>"
  unfolding example_csv_def
  by (simp add: read_csv_def Let_def upt_5)

lemma and_then_weak_cong: "m = m' \<Longrightarrow> and_then m f = and_then m' f"
  by simp

lemma and_then_Inr: "and_then (Inr x) f = f x"
  by (simp add: and_then_def)

lemma and_then_Inl: "and_then (Inl e) f = Inl e"
  by (simp add: and_then_def)

lemmas load_data_eval =
  load_data_def read_csv_def and_then_Inr and_then_Inl getitem_def cells_named_def frame_cmp_def
  np_select_def pd_Series_def reindex_def setitem_def df_replace_def dropna_def Let_def ustr_Nil_iff
  normalise_Review_text normalise_Review_text' normalise_Ratings Review_text_neq_Ratings

lemma load_data_example: "load_data example_csv = Inr example_df"
  unfolding example_csv_def example_df_def
  by (simp add: load_data_eval upt_5 cong: and_then_weak_cong)

lemma load_data_between: "load_data between_csv = Inr between_df"
  unfolding between_csv_def between_df_def
  by (simp add: load_data_eval upt_2 cong: and_then_weak_cong)

lemma load_data_implicit: "load_data implicit_csv = Inr implicit_df"
  unfolding implicit_csv_def implicit_df_def
  by (simp add: load_data_eval upt_2 cong: and_then_weak_cong)

lemma load_data_trailing:
  "load_data trailing_csv = Inr \<lparr>columns = [Review_text, Ratings], rows = []\<rparr>"
  unfolding trailing_csv_def
  by (simp add: load_data_eval cong: and_then_weak_cong)

lemma load_data_text_rating:
  "load_data text_csv = Inl (Exn ''TypeError'' ''>= between str and int'')"
  unfolding text_csv_def by (simp add: load_data_eval cong: and_then_weak_cong)

lemma column_position_example: "column_position Ratings [Review_text, Ratings] = 1"
  by (simp add: column_position_def Review_text_neq_Ratings)

lemma read_csv_between:
  "read_csv between_csv = Inr \<lparr>columns = [ustr ''Review_text'', ustr ''Ratings''],
     rows = [([IntV 0], [StrV (ustr ''so-so''), FloatV 3.5]),
             ([IntV 1], [StrV (ustr ''unrated''), NaN])]\<rparr>"
  unfolding between_csv_def
  by (simp add: read_csv_def Let_def upt_2)

lemma read_csv_implicit:
  "read_csv implicit_csv = Inr \<lparr>columns = [ustr ''Review_text'', ustr ''Ratings''],
     rows = [([IntV 1], [StrV (ustr ''good''), IntV 5]),
             ([IntV 0], [StrV (ustr ''bad''), IntV 1])]\<rparr>"
  unfolding implicit_csv_def
  by (simp add: read_csv_def Let_def)

subsection \<open>Tables with the default index\<close>

text \<open>
  When the table as read has the index \<open>0, 1, ...\<close>, the aligned labels are the labels by
  position: row \<open>k\<close> of the result is record \<open>k\<close> with its own label.
\<close>

lemma load_data_default_index:
  assumes rd: "read_csv csvf = Inr df0" and ld: "load_data csvf = Inr df"
    and idx: "map fst (rows df0) = map (\<lambda>k. [IntV (int k)]) [0..<length (rows df0)]"
  shows "rows df = filter (\<lambda>(l, r). NaN \<notin> set r)
           (map (\<lambda>k. ([IntV (int k)], map (\<lambda>v. if v = StrV [] then NaN else v)
              ((snd (rows df0 ! k))[column_position Ratings (columns df) :=
                 IntV (if cell_ge (snd (rows df0 ! k) ! column_position Ratings (columns df)) 4
                          = Inr True then 1 else 0)])))
            [0..<length (rows df0)])"
proof -
  let ?p = "column_position Ratings (columns df)"
  let ?n = "length (rows df0)"
  let ?labels = "map (\<lambda>k. if cell_ge (snd (rows df0 ! k) ! ?p) 4 = Inr True then 1 else (0::int))
      [0..<?n]"
  note cols = load_data_Inr(2) [OF rd ld]
  note rws = load_data_Inr(3) [OF rd ld, folded cols]
  have "reindex (pd_Series ?labels) (map fst (rows df0)) =
        reindex (pd_Series ?labels) (map (\<lambda>k. [IntV (int k)]) [0..<length ?labels])"
    by (subst idx) simp
  also have "\<dots> = map IntV ?labels" by (rule reindex_default)
  finally have al: "reindex (pd_Series ?labels) (map fst (rows df0)) = map IntV ?labels" .
  have L: "fst (rows df0 ! k) = [IntV (int k)]" if "k < ?n" for k
  proof -
    from that have "fst (rows df0 ! k) = map fst (rows df0) ! k" by simp
    also from that have "\<dots> = [IntV (int k)]" by (subst idx) simp
    finally show ?thesis .
  qed
  show ?thesis
    unfolding rws al
    by (rule arg_cong [where f = "filter (\<lambda>(l, r). NaN \<notin> set r)"], rule map_cong [OF refl])
       (simp add: L)
qed

lemma load_data_label_default_index:
  assumes rd: "read_csv csvf = Inr df0" and ld: "load_data csvf = Inr df"
    and idx: "map fst (rows df0) = map (\<lambda>k. [IntV (int k)]) [0..<length (rows df0)]"
    and mem: "(l, r) \<in> set (rows df)"
  shows "\<exists>k < length (rows df0). l = [IntV (int k)] \<and>
           r ! column_position Ratings (columns df) =
             IntV (if cell_ge (snd (rows df0 ! k) ! column_position Ratings (columns df)) 4 = Inr True
                   then 1 else 0)"
proof -
  let ?p = "column_position Ratings (columns df)"
  from mem obtain k where k: "k < length (rows df0)" and l: "l = [IntV (int k)]"
    and r: "r = map (\<lambda>v. if v = StrV [] then NaN else v)
              ((snd (rows df0 ! k))[?p :=
                 IntV (if cell_ge (snd (rows df0 ! k) ! ?p) 4 = Inr True then 1 else 0)])"
    unfolding load_data_default_index [OF rd ld idx] by auto
  from read_csv_frame(2) [OF rd k] load_data_position(1) [OF rd ld]
  have "?p < length (snd (rows df0 ! k))" by simp
  then have "r ! ?p = IntV (if cell_ge (snd (rows df0 ! k) ! ?p) 4 = Inr True then 1 else 0)"
    by (subst r) simp
  with k l show ?thesis by blast
qed

section \<open>The label (C1)\<close>

text \<open>
  C1 says that every row retained by \<open>load_data\<close> has the label 1 when its own rating is
  \<open>>= 4\<close> and 0 otherwise. The labels are computed by position and then assigned as a
  \<open>pd.Series\<close>, which pandas aligns on the index of the table. In a file whose records have
  one field more than the header, that field is the index: here the 5-star review has the
  leading field 1 and is returned with the label computed for the record at position 1,
  which is 0.
\<close>

theorem load_data_label_mislabelled:
  "snd implicit_csv ! 0 = [IntV 1, StrV (ustr ''good''), IntV 5] \<and>
   cell_ge (IntV 5) 4 = Inr True \<and>
   load_data implicit_csv = Inr implicit_df \<and>
   rows implicit_df ! 0 = ([IntV 1], [StrV (ustr ''good''), IntV 0])"
  using load_data_implicit by (simp add: implicit_csv_def implicit_df_def)

section \<open>Clean column names and complete rows (C3)\<close>

text \<open>
  C3. In the table that \<open>load_data\<close> returns, every column name is the header's name with
  the whitespace at both ends removed and each remaining space replaced by an underscore:
  it neither starts nor ends with whitespace and contains no space. No cell of a returned
  row is missing, and none is the empty text.
\<close>

theorem load_data_clean:
  assumes "load_data (header, records) = Inr df"
  shows "length (columns df) = length header \<and>
         (\<forall>j < length header.
            (\<exists>pre suf. header ! j = pre @ strip (header ! j) @ suf \<and>
               list_all isspace pre \<and> list_all isspace suf) \<and>
            columns df ! j = map (\<lambda>c. if c = 32 then 95 else c) (strip (header ! j)) \<and>
            (columns df ! j = [] \<or>
               (\<not> isspace (hd (columns df ! j)) \<and> \<not> isspace (last (columns df ! j)))) \<and>
            32 \<notin> set (columns df ! j)) \<and>
         (\<forall>(k, r) \<in> set (rows df). \<forall>v \<in> set r. v \<noteq> NaN \<and> v \<noteq> StrV [])"
proof -
  from assms obtain df0 where rd: "read_csv (header, records) = Inr df0"
    by (rule load_data_read)
  from read_csv_frame(1) [OF rd] have hd: "columns df0 = header" by simp
  from load_data_Inr(2) [OF rd assms] hd have cols: "columns df = map normalise_column header"
    by simp
  have a: "length (columns df) = length header" by (simp add: cols)
  have b: "(\<exists>pre suf. header ! j = pre @ strip (header ! j) @ suf \<and>
               list_all isspace pre \<and> list_all isspace suf) \<and>
            columns df ! j = map (\<lambda>c. if c = 32 then 95 else c) (strip (header ! j)) \<and>
            (columns df ! j = [] \<or>
               (\<not> isspace (hd (columns df ! j)) \<and> \<not> isspace (last (columns df ! j)))) \<and>
            32 \<notin> set (columns df ! j)" if "j < length header" for j
  proof -
    from that have c: "columns df ! j = normalise_column (header ! j)" by (simp add: cols)
    have d: "normalise_column (header ! j) = map (\<lambda>c. if c = 32 then 95 else c) (strip (header ! j))"
      by (simp add: normalise_column_def str_replace_def)
    from strip_shape [of "header ! j"] normalise_column_clean [of "header ! j"] d
    show ?thesis unfolding c by simp
  qed
  have c: "v \<noteq> NaN \<and> v \<noteq> StrV []" if "(k, r) \<in> set (rows df)" "v \<in> set r" for k r v
  proof -
    from load_data_row [OF rd assms that(1)] obtain i a where
      r: "r = map (\<lambda>v. if v = StrV [] then NaN else v)
                ((snd (rows df0 ! i))[column_position Ratings (columns df) := a])"
      and nan: "NaN \<notin> set r" by blast
    from nan that(2) have "v \<noteq> NaN" by auto
    moreover from that(2) have "v \<noteq> StrV []"
      by (subst (asm) r) (auto split: if_splits)
    ultimately show ?thesis by simp
  qed
  from a b c show ?thesis by blast
qed

theorem load_data_clean_witness:
  "load_data (fst example_csv, snd example_csv) = Inr example_df \<and>
   (0::nat) < length (fst example_csv) \<and>
   fst example_csv ! 0 = ustr '' Review text '' \<and>
   ([IntV 3], [StrV (ustr ''good''), IntV 1]) \<in> set (rows example_df) \<and>
   IntV 1 \<in> set [StrV (ustr ''good''), IntV 1] \<and>
   length (columns example_df) = length (fst example_csv) \<and>
   columns example_df ! 0 = map (\<lambda>c. if c = 32 then 95 else c) (strip (fst example_csv ! 0)) \<and>
   32 \<notin> set (columns example_df ! 0) \<and>
   IntV 1 \<noteq> NaN \<and> IntV 1 \<noteq> StrV []"
proof -
  have ld: "load_data (fst example_csv, snd example_csv) = Inr example_df"
    using load_data_example by simp
  have j: "(0::nat) < length (fst example_csv)"
    and h: "fst example_csv ! 0 = ustr '' Review text ''"
    by (simp_all add: example_csv_def)
  have m: "([IntV 3], [StrV (ustr ''good''), IntV 1]) \<in> set (rows example_df)"
    by (simp add: example_df_def)
  have v: "IntV 1 \<in> set [StrV (ustr ''good''), IntV 1]" by simp
  note t = load_data_clean [OF ld]
  from t have t1: "length (columns example_df) = length (fst example_csv)" by blast
  from t j have t2: "columns example_df ! 0 =
      map (\<lambda>c. if c = 32 then 95 else c) (strip (fst example_csv ! 0))"
    and t3: "32 \<notin> set (columns example_df ! 0)" by blast+
  from t m v have t4: "IntV 1 \<noteq> NaN \<and> IntV 1 \<noteq> StrV []" by blast
  from ld j h m v t1 t2 t3 t4 show ?thesis by blast
qed

section \<open>Ratings that are neither \<open>>= 4\<close> nor \<open><= 3\<close> (C2)\<close>

text \<open>
  C2 says that a rating satisfying neither condition gets a null label and that its row
  is then dropped. \<open>np.select\<close> fills such positions with its default 0: the review rated
  3.5 is returned with the label 0.
\<close>

theorem load_data_neither_counterexample:
  "snd between_csv ! 0 ! 1 = FloatV 3.5 \<and>
   cell_ge (FloatV 3.5) 4 = Inr False \<and> cell_le (FloatV 3.5) 3 = Inr False \<and>
   load_data between_csv = Inr between_df \<and>
   rows between_df ! 0 = ([IntV 0], [StrV (ustr ''so-so''), IntV 0]) \<and>
   IntV 0 \<noteq> NaN"
  using load_data_between by (simp add: between_csv_def between_df_def)

text \<open>
  C2, amended. In a table read with the default index, when the rating of record \<open>k\<close> is
  neither \<open>>= 4\<close> nor \<open><= 3\<close>, the row is returned exactly when no other cell of the record
  is missing or the empty text, and its label is then 0.
\<close>

theorem load_data_neither:
  assumes rd: "read_csv csvf = Inr df0" and ld: "load_data csvf = Inr df"
    and idx: "map fst (rows df0) = map (\<lambda>k. [IntV (int k)]) [0..<length (rows df0)]"
    and k: "k < length (rows df0)"
    and ge: "cell_ge (snd (rows df0 ! k) ! column_position Ratings (columns df)) 4 = Inr False"
    and le: "cell_le (snd (rows df0 ! k) ! column_position Ratings (columns df)) 3 = Inr False"
  shows "((\<exists>r. ([IntV (int k)], r) \<in> set (rows df)) \<longleftrightarrow>
            (\<forall>j < length (columns df0). j \<noteq> column_position Ratings (columns df) \<longrightarrow>
               snd (rows df0 ! k) ! j \<noteq> NaN \<and> snd (rows df0 ! k) ! j \<noteq> StrV [])) \<and>
         (\<forall>r. ([IntV (int k)], r) \<in> set (rows df) \<longrightarrow>
            r ! column_position Ratings (columns df) = IntV 0)"
proof -
  let ?p = "column_position Ratings (columns df)"
  let ?blank = "\<lambda>v. if v = StrV [] then NaN else v"
  let ?C = "\<lambda>i. snd (rows df0 ! i)"
  let ?n = "length (columns df0)"
  let ?R = "map ?blank ((?C k)[?p := IntV 0])"
  note len = read_csv_frame(2) [OF rd k]
  note p = load_data_position(1) [OF rd ld]
  define G where "G = (\<lambda>i. map ?blank ((?C i)[?p :=
      IntV (if cell_ge (?C i ! ?p) 4 = Inr True then 1 else 0)]))"
  have rws: "rows df = filter (\<lambda>(l, r). NaN \<notin> set r)
      (map (\<lambda>i. ([IntV (int i)], G i)) [0..<length (rows df0)])"
    using load_data_default_index [OF rd ld idx] unfolding G_def .
  have Gk: "G k = ?R" using ge by (simp add: G_def)
  have mem: "([IntV (int k)], r) \<in> set (rows df) \<longleftrightarrow> r = ?R \<and> NaN \<notin> set ?R" for r
  proof
    assume "([IntV (int k)], r) \<in> set (rows df)"
    then have "r = G k" and "NaN \<notin> set r" unfolding rws by auto
    then show "r = ?R \<and> NaN \<notin> set ?R" by (simp add: Gk)
  next
    assume a: "r = ?R \<and> NaN \<notin> set ?R"
    from k have "([IntV (int k)], G k) \<in>
        set (map (\<lambda>i. ([IntV (int i)], G i)) [0..<length (rows df0)])"
      by (simp add: image_iff)
    with a show "([IntV (int k)], r) \<in> set (rows df)" unfolding rws by (simp add: Gk)
  qed
  have Rlen: "length ?R = ?n" using len by simp
  have Rj: "?R ! j = (if j = ?p then IntV 0 else ?blank (?C k ! j))"
    if "j < ?n" for j
    using that len by (simp add: nth_list_update)
  have nan1: "\<exists>j < ?n. j \<noteq> ?p \<and> (?C k ! j = NaN \<or> ?C k ! j = StrV [])"
    if "NaN \<in> set ?R"
  proof -
    from that obtain j where j: "j < length ?R" and v: "?R ! j = NaN"
      unfolding in_set_conv_nth by blast
    from j Rlen have jl: "j < ?n" by simp
    from v Rj [OF jl] have jp: "j \<noteq> ?p" by (cases "j = ?p") simp_all
    with v Rj [OF jl] have "?blank (?C k ! j) = NaN" by simp
    then have "?C k ! j = NaN \<or> ?C k ! j = StrV []"
      by (cases "?C k ! j = StrV []") simp_all
    with jl jp show ?thesis by blast
  qed
  have nan2: "NaN \<in> set ?R"
    if "j < ?n" "j \<noteq> ?p" "?C k ! j = NaN \<or> ?C k ! j = StrV []" for j
  proof -
    from that(3) have "?blank (?C k ! j) = NaN" by (cases "?C k ! j = StrV []") simp_all
    with Rj [OF that(1)] that(2) have "?R ! j = NaN" by simp
    moreover from that(1) Rlen have "j < length ?R" by simp
    ultimately show ?thesis unfolding in_set_conv_nth by blast
  qed
  have nan: "NaN \<in> set ?R \<longleftrightarrow>
      (\<exists>j < ?n. j \<noteq> ?p \<and> (?C k ! j = NaN \<or> ?C k ! j = StrV []))"
    using nan1 nan2 by blast
  have lab: "r ! ?p = IntV 0" if "([IntV (int k)], r) \<in> set (rows df)" for r
  proof -
    from that mem have "r = ?R" by simp
    with Rj [OF p] show ?thesis by simp
  qed
  have ex: "(\<exists>r. ([IntV (int k)], r) \<in> set (rows df)) \<longleftrightarrow> NaN \<notin> set ?R"
    using mem by blast
  have "(\<exists>r. ([IntV (int k)], r) \<in> set (rows df)) \<longleftrightarrow>
      (\<forall>j < ?n. j \<noteq> ?p \<longrightarrow> ?C k ! j \<noteq> NaN \<and> ?C k ! j \<noteq> StrV [])"
    unfolding ex nan by blast
  with lab show ?thesis by blast
qed

theorem load_data_neither_witness:
  "read_csv between_csv = Inr \<lparr>columns = [ustr ''Review_text'', ustr ''Ratings''],
     rows = [([IntV 0], [StrV (ustr ''so-so''), FloatV 3.5]),
             ([IntV 1], [StrV (ustr ''unrated''), NaN])]\<rparr> \<and>
   load_data between_csv = Inr between_df \<and>
   column_position Ratings (columns between_df) = 1 \<and>
   cell_ge NaN 4 = Inr False \<and> cell_le NaN 3 = Inr False \<and>
   ([IntV 1], [StrV (ustr ''unrated''), IntV 0]) \<in> set (rows between_df) \<and>
   [StrV (ustr ''unrated''), IntV 0] ! column_position Ratings (columns between_df) = IntV 0"
proof -
  let ?df0 = "\<lparr>columns = [ustr ''Review_text'', ustr ''Ratings''],
     rows = [([IntV 0], [StrV (ustr ''so-so''), FloatV 3.5]),
             ([IntV 1], [StrV (ustr ''unrated''), NaN])]\<rparr>"
  note rd = read_csv_between
  note ld = load_data_between
  have idx: "map fst (rows ?df0) = map (\<lambda>k. [IntV (int k)]) [0..<length (rows ?df0)]"
    by (simp add: upt_2)
  have k: "(1::nat) < length (rows ?df0)" by simp
  have p: "column_position Ratings (columns between_df) = 1"
    by (simp add: between_df_def column_position_example)
  have ge: "cell_ge (snd (rows ?df0 ! 1) ! column_position Ratings (columns between_df)) 4 = Inr False"
    and le: "cell_le (snd (rows ?df0 ! 1) ! column_position Ratings (columns between_df)) 3 = Inr False"
    unfolding p by simp_all
  have c: "cell_ge NaN 4 = Inr False" "cell_le NaN 3 = Inr False" by simp_all
  have m: "([IntV 1], [StrV (ustr ''unrated''), IntV 0]) \<in> set (rows between_df)"
    by (simp add: between_df_def)
  from load_data_neither [OF rd ld idx k ge le] m
  have "[StrV (ustr ''unrated''), IntV 0] ! column_position Ratings (columns between_df) = IntV 0"
    by simp
  with rd ld p c m show ?thesis by (intro conjI)
qed

section \<open>input_output is the projection (C4)\<close>

text \<open>
  C4. On a rectangular table, \<open>input_output\<close> raises \<open>KeyError\<close> when the input label or
  the output label is on no column. Otherwise it returns \<open>X\<close> and \<open>y\<close>, each with the
  index labels of the table in the table's row order, the \<open>n\<close>-th row of \<open>X\<close> holding the
  cells of the \<open>n\<close>-th row of the table at the positions of the input label, and likewise
  \<open>y\<close> for the output label.
\<close>

theorem input_output_projection:
  assumes "list_all (\<lambda>(k, r). length r = length (columns data)) (rows data)"
  shows "if input \<in> set (columns data) \<and> output \<in> set (columns data)
         then \<exists>X y. input_output data input output = Inr (X, y) \<and>
                columns X = filter (\<lambda>c. c = input) (columns data) \<and>
                columns y = filter (\<lambda>c. c = output) (columns data) \<and>
                map fst (rows X) = map fst (rows data) \<and>
                map fst (rows y) = map fst (rows data) \<and>
                (\<forall>n < length (rows data).
                   snd (rows X ! n) = map ((!) (snd (rows data ! n)))
                     (filter (\<lambda>p. columns data ! p = input) [0..<length (columns data)]) \<and>
                   snd (rows y ! n) = map ((!) (snd (rows data ! n)))
                     (filter (\<lambda>p. columns data ! p = output) [0..<length (columns data)]))
         else \<exists>m. input_output data input output = Inl (Exn ''KeyError'' m)"
proof (cases "input \<in> set (columns data) \<and> output \<in> set (columns data)")
  case False
  then show ?thesis
    by (auto simp: input_output_def and_then_def getitem_def)
next
  case True
  define proj where "proj key =
    \<lparr>columns = filter (\<lambda>c. c = key) (columns data),
      rows = map (\<lambda>(k, r). (k, cells_named key (columns data) r)) (rows data)\<rparr>" for key
  from True have io: "input_output data input output = Inr (proj input, proj output)"
    by (simp add: input_output_def and_then_def getitem_present proj_def)
  have idx: "map fst (rows (proj key)) = map fst (rows data)" for key
    by (simp add: proj_def comp_def case_prod_unfold)
  have cell: "snd (rows (proj key) ! n) = map ((!) (snd (rows data ! n)))
      (filter (\<lambda>p. columns data ! p = key) [0..<length (columns data)])"
    if "n < length (rows data)" for key n
  proof -
    from assms that have "length (snd (rows data ! n)) = length (columns data)"
      by (simp add: list_all_length case_prod_unfold)
    from cells_named_positions [OF this] that show ?thesis
      by (simp add: proj_def case_prod_unfold)
  qed
  have "columns (proj input) = filter (\<lambda>c. c = input) (columns data)"
    and "columns (proj output) = filter (\<lambda>c. c = output) (columns data)"
    by (simp_all add: proj_def)
  with io idx cell True show ?thesis by auto
qed

theorem input_output_projection_witness:
  "list_all (\<lambda>(k, r). length r = length (columns example_df)) (rows example_df) \<and>
   Review_text \<in> set (columns example_df) \<and> Ratings \<in> set (columns example_df) \<and>
   (\<exists>X y. input_output example_df Review_text Ratings = Inr (X, y) \<and>
      columns X = filter (\<lambda>c. c = Review_text) (columns example_df) \<and>
      columns y = filter (\<lambda>c. c = Ratings) (columns example_df) \<and>
      map fst (rows X) = map fst (rows example_df) \<and>
      map fst (rows y) = map fst (rows example_df)) \<and>
   ustr ''Stars'' \<notin> set (columns example_df) \<and>
   (\<exists>m. input_output example_df Review_text (ustr ''Stars'') = Inl (Exn ''KeyError'' m))"
proof -
  have rect: "list_all (\<lambda>(k, r). length r = length (columns example_df)) (rows example_df)"
    by (simp add: example_df_def)
  have a: "Review_text \<in> set (columns example_df)" and b: "Ratings \<in> set (columns example_df)"
    by (simp_all add: example_df_def)
  have c: "ustr ''Stars'' \<notin> set (columns example_df)"
    by (simp add: example_df_def ustr_def Review_text_def Ratings_def)
  from input_output_projection [OF rect, of Review_text Ratings] a b
  have 1: "\<exists>X y. input_output example_df Review_text Ratings = Inr (X, y) \<and>
      columns X = filter (\<lambda>c. c = Review_text) (columns example_df) \<and>
      columns y = filter (\<lambda>c. c = Ratings) (columns example_df) \<and>
      map fst (rows X) = map fst (rows example_df) \<and>
      map fst (rows y) = map fst (rows example_df)"
    by (simp only: simp_thms if_True) (elim exE conjE, intro exI conjI, assumption+)
  from input_output_projection [OF rect, of Review_text "ustr ''Stars''"] c
  have 2: "\<exists>m. input_output example_df Review_text (ustr ''Stars'') = Inl (Exn ''KeyError'' m)"
    by (simp only: simp_thms if_False)
  show ?thesis by (intro conjI) (rule rect a b c 1 2)+
qed

section \<open>The ratings are overwritten (C10)\<close>

text \<open>
  C10. \<open>load_data\<close> adds no column: the returned table has one column per header name,
  exactly one of them labelled \<open>Ratings\<close>. In every returned row the \<open>Ratings\<close> cell is no
  rating but a label, 0 or 1 as an integer or as a float: the label computed for the
  record at the position that the row's index label denotes. The index label and every
  other cell of the row are those of one row of the table as read. The target \<open>y\<close> that the
  workflow takes with \<open>input_output\<close> from \<open>Review_text\<close> and \<open>Ratings\<close> is the \<open>Ratings\<close> cell
  of each returned row, in order: the sequence of these labels.
\<close>

theorem load_data_overwrites_ratings:
  assumes rd: "read_csv csvf = Inr df0" and ld: "load_data csvf = Inr df"
  shows "length (columns df) = length (fst csvf) \<and>
         length (filter (\<lambda>c. c = Ratings) (columns df)) = 1 \<and>
         (\<forall>(l, r) \<in> set (rows df).
            (\<exists>i < length (rows df0). range_position l = Some i \<and>
               (r ! column_position Ratings (columns df) =
                  IntV (if cell_ge (snd (rows df0 ! i) ! column_position Ratings (columns df)) 4
                           = Inr True then 1 else 0) \<or>
                r ! column_position Ratings (columns df) =
                  FloatV (if cell_ge (snd (rows df0 ! i) ! column_position Ratings (columns df)) 4
                           = Inr True then 1 else 0))) \<and>
            (\<exists>k < length (rows df0). l = fst (rows df0 ! k) \<and>
               (\<forall>j < length (fst csvf). j \<noteq> column_position Ratings (columns df) \<longrightarrow>
                  r ! j = snd (rows df0 ! k) ! j))) \<and>
         (if Review_text \<in> set (columns df)
          then \<exists>X. input_output df Review_text Ratings =
                 Inr (X, \<lparr>columns = [Ratings],
                          rows = map (\<lambda>(l, r). (l, [r ! column_position Ratings (columns df)]))
                                   (rows df)\<rparr>)
          else \<exists>m. input_output df Review_text Ratings = Inl (Exn ''KeyError'' m))"
proof -
  let ?p = "column_position Ratings (columns df)"
  let ?lab = "\<lambda>i. if cell_ge (snd (rows df0 ! i) ! ?p) 4 = Inr True then 1 else (0::int)"
  note hd = read_csv_frame(1) [OF rd]
  have a: "length (columns df) = length (fst csvf)"
    using load_data_position(4) [OF rd ld] by (simp only: hd)
  note b = load_data_position(3) [OF rd ld]
  have c: "\<forall>(l, r) \<in> set (rows df).
            (\<exists>i < length (rows df0). range_position l = Some i \<and>
               (r ! ?p = IntV (if cell_ge (snd (rows df0 ! i) ! ?p) 4 = Inr True then 1 else 0) \<or>
                r ! ?p = FloatV (if cell_ge (snd (rows df0 ! i) ! ?p) 4 = Inr True then 1 else 0))) \<and>
            (\<exists>k < length (rows df0). l = fst (rows df0 ! k) \<and>
               (\<forall>j < length (fst csvf). j \<noteq> ?p \<longrightarrow> r ! j = snd (rows df0 ! k) ! j))"
  proof (rule ballI)
    fix x assume x: "x \<in> set (rows df)"
    obtain l r where lr: "x = (l, r)" by (cases x)
    from x lr have m: "(l, r) \<in> set (rows df)" by simp
    from load_data_row_cells [OF rd ld m] obtain k i where k: "k < length (rows df0)"
      and i: "i < length (rows df0)" and l: "l = fst (rows df0 ! k)"
      and rp: "range_position l = Some i"
      and lab: "r ! ?p = IntV (?lab i) \<or> r ! ?p = FloatV (of_int (?lab i))"
      and oth: "\<forall>j < length (columns df0). j \<noteq> ?p \<longrightarrow> r ! j = snd (rows df0 ! k) ! j"
      by blast
    from lab have lab': "r ! ?p = IntV (if cell_ge (snd (rows df0 ! i) ! ?p) 4 = Inr True then 1 else 0) \<or>
        r ! ?p = FloatV (if cell_ge (snd (rows df0 ! i) ! ?p) 4 = Inr True then 1 else 0)"
      by (cases "cell_ge (snd (rows df0 ! i) ! ?p) 4 = Inr True") simp_all
    from i rp lab' have 1: "\<exists>i < length (rows df0). range_position l = Some i \<and>
               (r ! ?p = IntV (if cell_ge (snd (rows df0 ! i) ! ?p) 4 = Inr True then 1 else 0) \<or>
                r ! ?p = FloatV (if cell_ge (snd (rows df0 ! i) ! ?p) 4 = Inr True then 1 else 0))"
      by blast
    from k l oth have 2: "\<exists>k < length (rows df0). l = fst (rows df0 ! k) \<and>
               (\<forall>j < length (fst csvf). j \<noteq> ?p \<longrightarrow> r ! j = snd (rows df0 ! k) ! j)"
      unfolding hd by blast
    from 1 2 show "case x of (l, r) \<Rightarrow>
            (\<exists>i < length (rows df0). range_position l = Some i \<and>
               (r ! ?p = IntV (if cell_ge (snd (rows df0 ! i) ! ?p) 4 = Inr True then 1 else 0) \<or>
                r ! ?p = FloatV (if cell_ge (snd (rows df0 ! i) ! ?p) 4 = Inr True then 1 else 0))) \<and>
            (\<exists>k < length (rows df0). l = fst (rows df0 ! k) \<and>
               (\<forall>j < length (fst csvf). j \<noteq> ?p \<longrightarrow> r ! j = snd (rows df0 ! k) ! j))"
      unfolding lr prod.case by (rule conjI)
  qed
  from column_position_unique [OF b] have mem: "Ratings \<in> set (columns df)"
    by (metis nth_mem)
  from filter_eq_replicate [of Ratings "columns df"] b
  have fl: "filter (\<lambda>c. c = Ratings) (columns df) = [Ratings]" by simp
  have rws: "map (\<lambda>(l, r). (l, cells_named Ratings (columns df) r)) (rows df) =
      map (\<lambda>(l, r). (l, [r ! ?p])) (rows df)"
  proof (rule map_cong [OF refl])
    fix x assume x: "x \<in> set (rows df)"
    obtain l r where lr: "x = (l, r)" by (cases x)
    from x lr have m: "(l, r) \<in> set (rows df)" by simp
    from load_data_row_cells [OF rd ld m] have "length r = length (columns df0)" by blast
    with load_data_position(4) [OF rd ld] have "length r = length (columns df)" by simp
    from cells_named_unique [OF b this]
    show "(case x of (l, r) \<Rightarrow> (l, cells_named Ratings (columns df) r)) =
          (case x of (l, r) \<Rightarrow> (l, [r ! ?p]))"
      by (simp add: lr)
  qed
  have d: "if Review_text \<in> set (columns df)
          then \<exists>X. input_output df Review_text Ratings =
                 Inr (X, \<lparr>columns = [Ratings],
                          rows = map (\<lambda>(l, r). (l, [r ! ?p])) (rows df)\<rparr>)
          else \<exists>m. input_output df Review_text Ratings = Inl (Exn ''KeyError'' m)"
  proof (cases "Review_text \<in> set (columns df)")
    case True
    then show ?thesis
      by (simp add: input_output_def and_then_def getitem_present mem fl rws)
  next
    case False
    then show ?thesis
      by (simp add: input_output_def and_then_def getitem_absent)
  qed
  show ?thesis by (intro conjI) (rule a b c d)+
qed

theorem load_data_overwrites_ratings_witness:
  "read_csv implicit_csv = Inr \<lparr>columns = [ustr ''Review_text'', ustr ''Ratings''],
     rows = [([IntV 1], [StrV (ustr ''good''), IntV 5]),
             ([IntV 0], [StrV (ustr ''bad''), IntV 1])]\<rparr> \<and>
   load_data implicit_csv = Inr implicit_df \<and>
   Review_text \<in> set (columns implicit_df) \<and>
   length (columns implicit_df) = length (fst implicit_csv) \<and>
   length (filter (\<lambda>c. c = Ratings) (columns implicit_df)) = 1 \<and>
   (\<exists>X. input_output implicit_df Review_text Ratings =
      Inr (X, \<lparr>columns = [Ratings], rows = [([IntV 1], [IntV 0]), ([IntV 0], [IntV 1])]\<rparr>))"
proof -
  note rd = read_csv_implicit
  note ld = load_data_implicit
  have a: "Review_text \<in> set (columns implicit_df)"
    by (simp add: implicit_df_def)
  have p: "column_position Ratings (columns implicit_df) = 1"
    by (simp add: implicit_df_def column_position_example)
  have y: "map (\<lambda>(l, r). (l, [r ! column_position Ratings (columns implicit_df)])) (rows implicit_df)
      = [([IntV 1], [IntV 0]), ([IntV 0], [IntV 1])]"
    unfolding p by (simp add: implicit_df_def)
  note t = load_data_overwrites_ratings [OF rd ld]
  note t1 = t [THEN conjunct1]
  note t2 = t [THEN conjunct2, THEN conjunct1]
  note t4 = t [THEN conjunct2, THEN conjunct2, THEN conjunct2]
  have t4': "\<exists>X. input_output implicit_df Review_text Ratings =
      Inr (X, \<lparr>columns = [Ratings], rows = [([IntV 1], [IntV 0]), ([IntV 0], [IntV 1])]\<rparr>)"
    using t4 by (simp only: a if_True y)
  show ?thesis by (intro conjI) (rule rd ld a t1 t2 t4')+
qed

section \<open>Facts about the split\<close>

lemma validate_shuffle_split_TsNone:
  "validate_shuffle_split n TsNone = validate_shuffle_split n (TsFloat 0.25)"
  by (simp add: validate_shuffle_split_def)

lemma validate_shuffle_split_TsFloat:
  "validate_shuffle_split n (TsFloat f) =
     (if f \<le> 0 \<or> f \<ge> 1 then Inl (Exn ''ValueError'' ''test_size out of range'')
      else if int n - \<lceil>round_double (f * round_double (real n))\<rceil> = 0
      then Inl (Exn ''ValueError'' ''the resulting train set will be empty'')
      else Inr (int n - \<lceil>round_double (f * round_double (real n))\<rceil>,
                \<lceil>round_double (f * round_double (real n))\<rceil>))"
  by (simp add: validate_shuffle_split_def Let_def)

lemma validate_shuffle_split_TsInt:
  "validate_shuffle_split n (TsInt i) =
     (if i \<ge> int n \<or> i \<le> 0 then Inl (Exn ''ValueError'' ''test_size out of range'')
      else if int n - i = 0
      then Inl (Exn ''ValueError'' ''the resulting train set will be empty'')
      else Inr (int n - i, i))"
  by (simp add: validate_shuffle_split_def Let_def)

lemma validate_shuffle_split_Inr:
  assumes "validate_shuffle_split n test_size = Inr (train_size, n_test)"
  shows "train_size = int n - n_test"
proof (cases test_size)
  case (TsFloat f)
  with assms show ?thesis
    by (simp add: validate_shuffle_split_TsFloat split: if_splits)
next
  case (TsInt i)
  with assms show ?thesis
    by (simp add: validate_shuffle_split_TsInt split: if_splits)
next
  case TsNone
  with assms show ?thesis
    by (simp add: validate_shuffle_split_TsNone validate_shuffle_split_TsFloat split: if_splits)
qed

lemma validate_sizes_Inr:
  assumes "validate_sizes n train_size test_size = Inr (n_train, n_test)"
  shows "int n_train = train_size" and "int n_test = test_size"
    and "0 < n_train" and "0 < n_test"
  using assms by (auto simp: validate_sizes_def split: if_splits)

lemma split_sizes_Inr:
  assumes "and_then (validate_shuffle_split n test_size)
             (\<lambda>(train_size, test_size). validate_sizes n train_size test_size) = Inr (n_train, n_test)"
  shows "n_train + n_test = n" and "0 < n_train" and "0 < n_test"
proof -
  from assms obtain a b where v: "validate_shuffle_split n test_size = Inr (a, b)"
    and s: "validate_sizes n a b = Inr (n_train, n_test)"
    by (auto simp: and_then_Inr_iff)
  from validate_shuffle_split_Inr [OF v] validate_sizes_Inr(1,2) [OF s]
  show "n_train + n_test = n" by linarith
  from validate_sizes_Inr(3,4) [OF s] show "0 < n_train" and "0 < n_test" .
qed

lemma round_double_1: "round_double 1 = 1"
  by code_simp

lemma round_double_4: "round_double 4 = 4"
  by code_simp

lemma split_sizes_quarter:
  "and_then (validate_shuffle_split 4 (TsFloat 0.25))
     (\<lambda>(train_size, test_size). validate_sizes 4 train_size test_size) = Inr (3, 1)"
  by (simp add: validate_shuffle_split_TsFloat validate_sizes_def round_double_4 round_double_1
      and_then_Inr)


lemma length_4: "length [a, b, c, d] = 4"
  by simp

lemma split_train_test_example:
  "fst (split_train_test example_rng 7 [''a'', ''b'', ''c'', ''d''] [1, 0, 1, 1::int]
          (TsFloat 0.25) (RsInt 1)) =
   Inr ([''c'', ''d'', ''a''], [''b''], [1, 1, 1], [0])"
  unfolding split_train_test_def train_test_split_def length_4 split_sizes_quarter
  by (simp add: check_random_state_def example_rng_def safe_indexing_def upt_conv_Cons
      and_then_Inr)


lemma train_test_split_Inr:
  assumes "fst (train_test_split rng g X y test_size random_state) = Inr (X_train, X_test, y_train, y_test)"
  shows "\<exists>n_train n_test st.
           length X = length y \<and>
           and_then (validate_shuffle_split (length X) test_size)
             (\<lambda>(train_size, test_size). validate_sizes (length X) train_size test_size) =
               Inr (n_train, n_test) \<and>
           check_random_state rng g random_state = Inr st \<and>
           X_train = map ((!) X) (take n_train (drop n_test (fst (permutation rng st (length X))))) \<and>
           X_test = map ((!) X) (take n_test (fst (permutation rng st (length X)))) \<and>
           y_train = map ((!) y) (take n_train (drop n_test (fst (permutation rng st (length X))))) \<and>
           y_test = map ((!) y) (take n_test (fst (permutation rng st (length X))))"
proof -
  let ?sizes = "and_then (validate_shuffle_split (length X) test_size)
             (\<lambda>(train_size, test_size). validate_sizes (length X) train_size test_size)"
  from assms have len: "length X = length y"
    by (auto simp: train_test_split_def split: if_splits)
  from assms len obtain n_train n_test where v: "?sizes = Inr (n_train, n_test)"
    by (cases "?sizes") (auto simp: train_test_split_def)
  from assms len v obtain st where c: "check_random_state rng g random_state = Inr st"
    by (cases "check_random_state rng g random_state") (auto simp: train_test_split_def)
  obtain perm st' where p: "permutation rng st (length X) = (perm, st')"
    by (cases "permutation rng st (length X)")
  from assms len v c p have
    r: "and_then (safe_indexing X (take n_train (drop n_test perm))) (\<lambda>X_train.
        and_then (safe_indexing X (take n_test perm)) (\<lambda>X_test.
        and_then (safe_indexing y (take n_train (drop n_test perm))) (\<lambda>y_train.
        and_then (safe_indexing y (take n_test perm)) (\<lambda>y_test.
          Inr (X_train, X_test, y_train, y_test))))) = Inr (X_train, X_test, y_train, y_test)"
    by (simp add: train_test_split_def Let_def)
  then have "X_train = map ((!) X) (take n_train (drop n_test perm)) \<and>
             X_test = map ((!) X) (take n_test perm) \<and>
             y_train = map ((!) y) (take n_train (drop n_test perm)) \<and>
             y_test = map ((!) y) (take n_test perm)"
    by (auto simp: and_then_Inr_iff safe_indexing_def split: if_splits)
  with len v c p show ?thesis by auto
qed

lemma shuffle_partition:
  assumes perm: "mset perm = mset [0..<n]" and sizes: "n_train + n_test = n"
  shows "distinct (take n_train (drop n_test perm) @ take n_test perm)"
    and "set (take n_train (drop n_test perm)) \<union> set (take n_test perm) = {..<n}"
    and "set (take n_train (drop n_test perm)) \<inter> set (take n_test perm) = {}"
    and "length (take n_train (drop n_test perm)) = n_train"
    and "length (take n_test perm) = n_test"
proof -
  from perm have len: "length perm = n"
    by (metis length_upt mset_eq_length minus_nat.diff_0)
  from perm have dist: "distinct perm"
    by (metis distinct_upt mset_eq_imp_distinct_iff)
  from perm have st: "set perm = {..<n}"
    by (metis atLeast_upt mset_eq_setD set_upt lessThan_atLeast0)
  from len sizes have tr: "take n_train (drop n_test perm) = drop n_test perm" by simp
  have split: "take n_test perm @ drop n_test perm = perm" by simp
  from dist have "distinct (take n_test perm @ drop n_test perm)"
    by (simp only: split)
  then have d1: "distinct (take n_test perm)" and d2: "distinct (drop n_test perm)"
    and d3: "set (take n_test perm) \<inter> set (drop n_test perm) = {}"
    unfolding distinct_append by blast+
  from d3 have d3': "set (drop n_test perm) \<inter> set (take n_test perm) = {}"
    by (simp only: Int_commute)
  from d1 d2 d3' show "distinct (take n_train (drop n_test perm) @ take n_test perm)"
    unfolding tr distinct_append by blast
  from d3' show "set (take n_train (drop n_test perm)) \<inter> set (take n_test perm) = {}"
    unfolding tr .
  have "set (drop n_test perm) \<union> set (take n_test perm) = set (take n_test perm @ drop n_test perm)"
    by (simp only: set_append Un_commute)
  with st show "set (take n_train (drop n_test perm)) \<union> set (take n_test perm) = {..<n}"
    unfolding tr by (simp only: split)
  from len sizes show "length (take n_train (drop n_test perm)) = n_train"
    and "length (take n_test perm) = n_test" by simp_all
qed

lemma mset_rotate_eq: "mset (rotate k xs) = mset xs"
proof (induction k)
  case 0
  show ?case by simp
next
  case (Suc k)
  have "mset (rotate1 zs) = mset zs" for zs :: "'a list" by (cases zs) simp_all
  with Suc show ?case by simp
qed

lemma example_rng_permutation:
  "\<forall>st n. mset (fst (permutation example_rng st n)) = mset [0..<n]"
  by (simp add: example_rng_def mset_rotate_eq del: mset_upt)



section \<open>The split is reproducible (C5)\<close>

text \<open>
  C5. With an integer seed, \<open>split_train_test\<close> returns the same result for the same \<open>X\<close>, \<open>y\<close>,
  test fraction and seed whatever the state of the global generator is when it is called,
  and leaves that state as it was: two calls give identical partitions.
\<close>

theorem split_train_test_deterministic:
  "fst (split_train_test rng g1 X y test_size (RsInt seed)) =
   fst (split_train_test rng g2 X y test_size (RsInt seed)) \<and>
   snd (split_train_test rng g1 X y test_size (RsInt seed)) = g1"
proof -
  have cr: "check_random_state rng g (RsInt seed) = check_random_state rng g' (RsInt seed)" for g g'
    by (simp add: check_random_state_def)
  have 1: "fst (train_test_split rng g1 X y test_size (RsInt seed)) =
           fst (train_test_split rng g2 X y test_size (RsInt seed))"
    unfolding train_test_split_def cr [of g1 g2]
    by (simp add: Let_def split: sum.splits prod.splits)
  have 2: "snd (train_test_split rng g1 X y test_size (RsInt seed)) = g1"
    unfolding train_test_split_def
    by (simp add: Let_def split: sum.splits prod.splits)
  from 1 2 show ?thesis by (simp only: split_train_test_def simp_thms)
qed

text \<open>Without a seed the split is drawn from the global generator and depends on its state.\<close>

lemma split_train_test_unseeded:
  "fst (split_train_test example_rng 0 [''a'', ''b'', ''c'', ''d''] [1, 0, 1, 1::int] (TsFloat 0.25) RsNone) \<noteq>
   fst (split_train_test example_rng 1 [''a'', ''b'', ''c'', ''d''] [1, 0, 1, 1::int] (TsFloat 0.25) RsNone)"
  unfolding split_train_test_def train_test_split_def length_4 split_sizes_quarter
  by (simp add: check_random_state_def example_rng_def safe_indexing_def upt_conv_Cons
      and_then_Inr)

section \<open>The split is a partition (C6)\<close>

text \<open>
  C6. When the generator's permutation is a permutation of \<open>range(n)\<close> and
  \<open>split_train_test\<close> returns, the training and test parts are the rows of \<open>X\<close> and \<open>y\<close> at two
  lists of positions that are disjoint, without repetition, and together all positions of
  the input; so the sizes of the two parts sum to the size of the input.
\<close>

theorem split_train_test_partition:
  assumes rng: "\<forall>st n. mset (fst (permutation rng st n)) = mset [0..<n]"
    and res: "fst (split_train_test rng g X y test_size random_state) =
                Inr (X_train, X_test, y_train, y_test)"
  shows "\<exists>train test.
           X_train = map ((!) X) train \<and> X_test = map ((!) X) test \<and>
           y_train = map ((!) y) train \<and> y_test = map ((!) y) test \<and>
           distinct (train @ test) \<and>
           set train \<inter> set test = {} \<and>
           set train \<union> set test = {..<length X} \<and>
           length X_train + length X_test = length X \<and>
           length y_train + length y_test = length y"
proof -
  from res have "fst (train_test_split rng g X y test_size random_state) =
      Inr (X_train, X_test, y_train, y_test)"
    by (simp only: split_train_test_def)
  from train_test_split_Inr [OF this] obtain n_train n_test st where
    len: "length X = length y"
    and v: "and_then (validate_shuffle_split (length X) test_size)
             (\<lambda>(train_size, test_size). validate_sizes (length X) train_size test_size) =
               Inr (n_train, n_test)"
    and Xtr: "X_train = map ((!) X) (take n_train (drop n_test (fst (permutation rng st (length X)))))"
    and Xte: "X_test = map ((!) X) (take n_test (fst (permutation rng st (length X))))"
    and ytr: "y_train = map ((!) y) (take n_train (drop n_test (fst (permutation rng st (length X)))))"
    and yte: "y_test = map ((!) y) (take n_test (fst (permutation rng st (length X))))"
    by blast
  let ?perm = "fst (permutation rng st (length X))"
  let ?train = "take n_train (drop n_test ?perm)"
  let ?test = "take n_test ?perm"
  from rng have perm: "mset ?perm = mset [0..<length X]" by blast
  note sizes = split_sizes_Inr(1) [OF v]
  note part = shuffle_partition [OF perm sizes]
  have l1: "length X_train + length X_test = length X"
    unfolding Xtr Xte length_map part(4) part(5) by (rule sizes)
  have l2: "length y_train + length y_test = length y"
    unfolding ytr yte length_map part(4) part(5) using sizes len by simp
  show ?thesis
    by (rule exI [of _ ?train], rule exI [of _ ?test])
       (intro conjI Xtr Xte ytr yte part(1) part(2) part(3) l1 l2)
qed

theorem split_train_test_partition_witness:
  "(\<forall>st n. mset (fst (permutation example_rng st n)) = mset [0..<n]) \<and>
   fst (split_train_test example_rng 7 [''a'', ''b'', ''c'', ''d''] [1, 0, 1, 1::int]
          (TsFloat 0.25) (RsInt 1)) =
     Inr ([''c'', ''d'', ''a''], [''b''], [1, 1, 1], [0]) \<and>
   (\<exists>train test.
      [''c'', ''d'', ''a''] = map ((!) [''a'', ''b'', ''c'', ''d'']) train \<and>
      [''b''] = map ((!) [''a'', ''b'', ''c'', ''d'']) test \<and>
      [1, 1, 1] = map ((!) [1, 0, 1, 1::int]) train \<and>
      [0] = map ((!) [1, 0, 1, 1::int]) test \<and>
      distinct (train @ test) \<and>
      set train \<inter> set test = {} \<and>
      set train \<union> set test = {..<length [''a'', ''b'', ''c'', ''d'']} \<and>
      length [''c'', ''d'', ''a''] + length [''b''] = length [''a'', ''b'', ''c'', ''d''] \<and>
      length [1, 1, 1::int] + length [0::int] = length [1, 0, 1, 1::int])"
  by (intro conjI example_rng_permutation split_train_test_example
      split_train_test_partition [OF example_rng_permutation split_train_test_example])

section \<open>The test size (C7)\<close>




section \<open>Training on an empty set (C8)\<close>

text \<open>
  C8 says that \<open>train_model\<close> on an empty training set fails with \<open>ConfigurationError\<close>. The
  exception comes from the cross-validation splitter of \<open>GridSearchCV.fit\<close> and its class is
  \<open>ValueError\<close>.
\<close>

theorem train_model_empty_counterexample:
  "train_model example_search [] [] [] =
     Inl (Exn ''ValueError'' ''n_splits greater than the number of samples'') \<and>
   exn_class (Exn ''ValueError'' ''n_splits greater than the number of samples'') \<noteq>
     ''ConfigurationError''"
  by (simp add: train_model_def GridSearchCV_fit_def Let_def)

text \<open>
  C8, amended. \<open>train_model\<close> on an empty training set raises \<open>ValueError\<close> and returns no
  fitted model, whatever the grid and the labels are.
\<close>

theorem train_model_empty:
  "\<exists>m. train_model search [] y_train hyperparameters = Inl (Exn ''ValueError'' m)"
  by (cases y_train) (simp_all add: train_model_def GridSearchCV_fit_def Let_def)

end
